theory Spec2Isabelle
  imports Main "HOL-Library.AList" "HOL-Library.Multiset" "HOL-Library.Product_Lexorder"
    "HOL-Library.Sublist"
begin

section \<open>JavaScript values and errors\<close>

text \<open>
  The configuration is a plain JavaScript object tree. A value of the tree is a
  \<open>jsval\<close>; an object is an association list of its own enumerable properties in
  insertion order. \<open>BareObj\<close> is the empty object without prototype that the
  constructor of \<open>Config\<close> creates (\<open>Object.create(null)\<close>). \<open>Fun\<close> is an opaque callable
  named by an identifier, \<open>RegExp\<close> a regular expression given by source and flags, and
  \<open>MatchFn r\<close> the closure \<open>filePath => filePath.match(r) !== null\<close> that
  \<open>valueToFunction\<close> builds around the captured value \<open>r\<close>.

  Everything that throws is a value of \<open>error\<close>: \<open>Error msg\<close> is \<open>new Error(msg)\<close>,
  \<open>TypeError\<close> and \<open>SyntaxError\<close> are the language's own exceptions,
  \<open>ModuleResolutionError name basedir\<close> is the failure of \<open>resolve.sync\<close> to locate a
  module. \<open>Unsupported\<close> marks an input outside the fragment of JavaScript that is
  modelled here (nothing is stated about the code on such an input).
\<close>

datatype error =
    Error string
  | TypeError
  | SyntaxError
  | ModuleResolutionError string string
  | Unsupported

datatype jsval =
    Undefined
  | Null
  | Bool bool
  | Num int
  | Str string
  | Arr "jsval list"
  | Obj "(string \<times> jsval) list"
  | BareObj
  | Fun string
  | RegExp string string
  | MatchFn jsval

text \<open>\<open>x == null\<close>: true of \<open>null\<close> and \<open>undefined\<close> only.\<close>

fun isNullish :: "jsval \<Rightarrow> bool" where
  "isNullish Undefined = True"
| "isNullish Null = True"
| "isNullish _ = False"

text \<open>\<open>_.isString\<close> and \<open>_.isFunction\<close>.\<close>

fun isString :: "jsval \<Rightarrow> bool" where
  "isString (Str _) = True"
| "isString _ = False"

fun isFunction :: "jsval \<Rightarrow> bool" where
  "isFunction (Fun _) = True"
| "isFunction (MatchFn _) = True"
| "isFunction _ = False"

text \<open>The truthiness of a value in a condition.\<close>

fun truthy :: "jsval \<Rightarrow> bool" where
  "truthy Undefined = False"
| "truthy Null = False"
| "truthy (Bool b) = b"
| "truthy (Num n) = (n \<noteq> 0)"
| "truthy (Str s) = (s \<noteq> [])"
| "truthy _ = True"

subsection \<open>Property access\<close>

text \<open>
  An object literal inherits the members of \<open>Object.prototype\<close>; a read \<open>o[k]\<close> finds
  them when \<open>o\<close> has no own property \<open>k\<close>.
\<close>

definition object_prototype_methods :: "(string \<times> jsval) list" where
  "object_prototype_methods =
     [(''constructor'', Fun ''Object''),
      (''hasOwnProperty'', Fun ''Object.prototype.hasOwnProperty''),
      (''isPrototypeOf'', Fun ''Object.prototype.isPrototypeOf''),
      (''propertyIsEnumerable'', Fun ''Object.prototype.propertyIsEnumerable''),
      (''toLocaleString'', Fun ''Object.prototype.toLocaleString''),
      (''toString'', Fun ''Object.prototype.toString''),
      (''valueOf'', Fun ''Object.prototype.valueOf''),
      (''__defineGetter__'', Fun ''Object.prototype.__defineGetter__''),
      (''__defineSetter__'', Fun ''Object.prototype.__defineSetter__''),
      (''__lookupGetter__'', Fun ''Object.prototype.__lookupGetter__''),
      (''__lookupSetter__'', Fun ''Object.prototype.__lookupSetter__'')]"

definition object_prototype :: "(string \<times> jsval) list" where
  "object_prototype =
     object_prototype_methods @ [(''__proto__'', Obj object_prototype_methods)]"

text \<open>The index a canonical numeric property name denotes (\<open>''0''\<close>, \<open>''17''\<close>).\<close>

definition index_of_string :: "string \<Rightarrow> nat option" where
  "index_of_string s =
     (if s = [] \<or> (1 < length s \<and> hd s = CHR ''0'') \<or> \<not> list_all (\<lambda>c. c \<in> set ''0123456789'') s
      then None
      else Some (fold (\<lambda>c n. 10 * n + (of_char c - 48)) s 0))"

text \<open>
  \<open>o[k]\<close> and \<open>o.k\<close>. Reading a property of \<open>null\<close> or \<open>undefined\<close> throws a TypeError.
  Of the inherited members only those of \<open>Object.prototype\<close> on plain objects are
  modelled; arrays and strings answer for their length and their indices.
\<close>

fun js_prop :: "jsval \<Rightarrow> string \<Rightarrow> error + jsval" where
  "js_prop Undefined k = Inl TypeError"
| "js_prop Null k = Inl TypeError"
| "js_prop (Obj kvs) k =
     (case map_of kvs k of
        Some v \<Rightarrow> Inr v
      | None \<Rightarrow> (case map_of object_prototype k of Some v \<Rightarrow> Inr v | None \<Rightarrow> Inr Undefined))"
| "js_prop BareObj k = Inr Undefined"
| "js_prop (Arr xs) k =
     (if k = ''length'' then Inr (Num (int (length xs)))
      else (case index_of_string k of
              Some i \<Rightarrow> Inr (if i < length xs then xs ! i else Undefined)
            | None \<Rightarrow> Inl Unsupported))"
| "js_prop (Str s) k = (if k = ''length'' then Inr (Num (int (length s))) else Inl Unsupported)"
| "js_prop _ k = Inl Unsupported"

text \<open>
  \<open>o[k] = v\<close> on the object \<open>o\<close>: an own property keeps its place, a new one is
  appended. In a module (strict code) the assignment to a property of a primitive
  throws.
\<close>

fun js_set :: "jsval \<Rightarrow> string \<Rightarrow> jsval \<Rightarrow> error + jsval" where
  "js_set (Obj kvs) k v = Inr (Obj (AList.update k v kvs))"
| "js_set BareObj k v = Inr (Obj [(k, v)])"
| "js_set Undefined k v = Inl TypeError"
| "js_set Null k v = Inl TypeError"
| "js_set (Bool b) k v = Inl TypeError"
| "js_set (Num n) k v = Inl TypeError"
| "js_set (Str s) k v = Inl TypeError"
| "js_set _ k v = Inl Unsupported"

text \<open>The own enumerable property names of an object, each once.\<close>

definition js_keys :: "(string \<times> jsval) list \<Rightarrow> string list" where
  "js_keys kvs = remdups (map fst kvs)"

subsection \<open>lodash: \<open>_.get\<close>\<close>

fun split_on :: "char \<Rightarrow> string \<Rightarrow> string list" where
  "split_on c [] = [[]]"
| "split_on c (x # xs) =
     (if x = c then [] # split_on c xs
      else (case split_on c xs of w # ws \<Rightarrow> (x # w) # ws | [] \<Rightarrow> [[x]]))"

text \<open>\<open>o\<close> has an own property \<open>k\<close>.\<close>

fun has_own :: "jsval \<Rightarrow> string \<Rightarrow> bool" where
  "has_own (Obj kvs) k = (map_of kvs k \<noteq> None)"
| "has_own v k = False"

text \<open>
  \<open>castPath\<close>: a string without a dot is one key; a dotted string that is itself a
  property of the object is one key; any other dotted string is split at its dots.
  The bracket syntax of lodash paths is not modelled.
\<close>

definition castPath :: "jsval \<Rightarrow> string \<Rightarrow> error + string list" where
  "castPath object p =
     (if CHR ''['' \<in> set p \<or> CHR '']'' \<in> set p then Inl Unsupported
      else if CHR ''.'' \<notin> set p then Inr [p]
      else if has_own object p then Inr [p]
      else Inr (split_on CHR ''.'' p))"

text \<open>\<open>baseGet\<close>: follow the keys while the object is neither null nor undefined.\<close>

fun baseGet :: "jsval \<Rightarrow> string list \<Rightarrow> error + jsval" where
  "baseGet object [] = Inr object"
| "baseGet object (k # ks) =
     (if isNullish object then Inr Undefined
      else (case js_prop object k of Inl e \<Rightarrow> Inl e | Inr v \<Rightarrow> baseGet v ks))"

definition lodash_get :: "jsval \<Rightarrow> string \<Rightarrow> jsval \<Rightarrow> error + jsval" where
  "lodash_get object p dflt =
     (case castPath object p of
        Inl e \<Rightarrow> Inl e
      | Inr ks \<Rightarrow>
          (case baseGet object ks of
             Inl e \<Rightarrow> Inl e
           | Inr v \<Rightarrow> Inr (if v = Undefined then dflt else v)))"

section \<open>Sorting the scoped defaults\<close>

text \<open>
  The two iteratees that \<open>update\<close> hands to \<open>_.sortBy\<close>:
  \<open>defaultObj => _.get(defaultObj, 'scope.path', '').length\<close> and
  \<open>defaultObj => defaultObj.scope.metadata != null\<close>. The length of a string is the
  number of its characters; \<open>null.length\<close> throws; the length of any other value is
  outside the model.
\<close>

definition pathLength :: "jsval \<Rightarrow> error + nat" where
  "pathLength defaultObj =
     (case lodash_get defaultObj ''scope.path'' (Str '''') of
        Inl e \<Rightarrow> Inl e
      | Inr (Str s) \<Rightarrow> Inr (length s)
      | Inr Null \<Rightarrow> Inl TypeError
      | Inr _ \<Rightarrow> Inl Unsupported)"

definition hasMetadata :: "jsval \<Rightarrow> error + bool" where
  "hasMetadata defaultObj =
     (case js_prop defaultObj ''scope'' of
        Inl e \<Rightarrow> Inl e
      | Inr scope \<Rightarrow>
          (case js_prop scope ''metadata'' of
             Inl e \<Rightarrow> Inl e
           | Inr m \<Rightarrow> Inr (\<not> isNullish m)))"

definition criteria :: "jsval \<Rightarrow> error + (nat \<times> bool)" where
  "criteria defaultObj =
     (case pathLength defaultObj of
        Inl e \<Rightarrow> Inl e
      | Inr n \<Rightarrow> (case hasMetadata defaultObj of Inl e \<Rightarrow> Inl e | Inr b \<Rightarrow> Inr (n, b)))"

text \<open>
  \<open>_.sortBy\<close> (lodash \<open>baseOrderBy\<close>) pairs every element with its criteria and its
  index, sorts the pairs with a comparator that compares the criteria in turn and
  then the indices, and returns the elements. The comparator is a strict total order
  on the pairs, so the sorted array is the one ascending in (criteria, index).
\<close>

fun decorate :: "nat \<Rightarrow> jsval list \<Rightarrow> error + ((nat \<times> bool) \<times> nat \<times> jsval) list" where
  "decorate i [] = Inr []"
| "decorate i (d # ds) =
     (case criteria d of
        Inl e \<Rightarrow> Inl e
      | Inr c \<Rightarrow> (case decorate (Suc i) ds of Inl e \<Rightarrow> Inl e | Inr r \<Rightarrow> Inr ((c, i, d) # r)))"

definition compareAscending :: "'a::linorder \<Rightarrow> 'a \<Rightarrow> int" where
  "compareAscending v other =
     (if v \<noteq> other then (if v > other then 1 else if v < other then - 1 else 0) else 0)"

definition compareMultiple ::
  "(nat \<times> bool) \<times> nat \<times> jsval \<Rightarrow> (nat \<times> bool) \<times> nat \<times> jsval \<Rightarrow> int" where
  "compareMultiple object other =
     (case (object, other) of
        ((c, i, d), (c', i', d')) \<Rightarrow>
          (let r = compareAscending (fst c) (fst c') in
           if r \<noteq> 0 then r
           else (let r2 = compareAscending (snd c) (snd c') in
                 if r2 \<noteq> 0 then r2 else int i - int i')))"

text \<open>
  The array sorted with \<open>compareMultiple\<close>; a pair is before another exactly when its
  (criteria, index) is less in the lexicographic order (\<open>compareMultiple_less\<close> below).
\<close>

definition baseSortBy ::
  "((nat \<times> bool) \<times> nat \<times> jsval) list \<Rightarrow> ((nat \<times> bool) \<times> nat \<times> jsval) list" where
  "baseSortBy = sort_key (\<lambda>(c, i, d). (c, i))"

text \<open>The collection \<open>_.sortBy\<close> iterates: an array's elements; nothing for a nullish value.\<close>

fun collection_elements :: "jsval \<Rightarrow> error + jsval list" where
  "collection_elements (Arr xs) = Inr xs"
| "collection_elements Undefined = Inr []"
| "collection_elements Null = Inr []"
| "collection_elements _ = Inl Unsupported"

definition sortBy_defaults :: "jsval \<Rightarrow> error + jsval list" where
  "sortBy_defaults defaults =
     (case collection_elements defaults of
        Inl e \<Rightarrow> Inl e
      | Inr ds \<Rightarrow>
          (case decorate 0 ds of
             Inl e \<Rightarrow> Inl e
           | Inr dec \<Rightarrow> Inr (map (\<lambda>(c, i, d). d) (baseSortBy dec))))"

text \<open>
  The rule shape of the data model, \<open>{ scope: { path?: string, metadata?: mapping },
  values: mapping }\<close>, and the composite key in the words of the specification: the
  length of \<open>scope.path\<close> with an absent path counted as 0, then 0 when
  \<open>scope.metadata\<close> is absent and 1 otherwise.
\<close>

definition rule_scope :: "jsval \<Rightarrow> (string \<times> jsval) list" where
  "rule_scope d =
     (case d of Obj kvs \<Rightarrow> (case map_of kvs ''scope'' of Some (Obj sc) \<Rightarrow> sc | _ \<Rightarrow> []) | _ \<Rightarrow> [])"

definition is_DefaultRule :: "jsval \<Rightarrow> bool" where
  "is_DefaultRule d =
     (case d of
        Obj kvs \<Rightarrow>
          map_of kvs ''scope.path'' = None \<and>
          (case map_of kvs ''scope'' of
             Some (Obj sc) \<Rightarrow>
               (case map_of sc ''path'' of None \<Rightarrow> True | Some (Str s) \<Rightarrow> True | _ \<Rightarrow> False) \<and>
               (case map_of sc ''metadata'' of None \<Rightarrow> True | Some (Obj m) \<Rightarrow> True | _ \<Rightarrow> False)
           | _ \<Rightarrow> False)
      | _ \<Rightarrow> False)"

definition spec_sort_key :: "jsval \<Rightarrow> nat \<times> nat" where
  "spec_sort_key d =
     ((case map_of (rule_scope d) ''path'' of Some (Str s) \<Rightarrow> length s | _ \<Rightarrow> 0),
      (case map_of (rule_scope d) ''metadata'' of None \<Rightarrow> 0 | Some m \<Rightarrow> 1))"

text \<open>The criteria that \<open>update\<close> computes, as the key of the specification.\<close>

definition key_of_criteria :: "nat \<times> bool \<Rightarrow> nat \<times> nat" where
  "key_of_criteria c = (fst c, if snd c then 1 else 0)"

text \<open>The three rules of the packaged configuration file, in their declared order.\<close>

definition ruleA :: jsval where
  "ruleA = Obj [(''scope'', Obj [(''path'', Str ''./'')]),
                (''values'', Obj [(''template'', Str ''page''), (''permalink'', Str ''/:title/'')])]"

definition ruleB :: jsval where
  "ruleB = Obj [(''scope'', Obj [(''path'', Str ''./_posts'')]),
                (''values'', Obj [(''template'', Str ''post''), (''permalink'', Str ''/:title/'')])]"

definition ruleC :: jsval where
  "ruleC = Obj [(''scope'', Obj [(''metadata'', Obj [(''draft'', Bool True)])]),
                (''values'', Obj [(''template'', Str ''draft'')])]"

section \<open>Node's \<open>path\<close> module (POSIX)\<close>

text \<open>
  \<open>normalizeString\<close> walks the segments between slashes: an empty segment and \<open>.\<close>
  are dropped, \<open>..\<close> removes the segment before it, or stays when there is none to
  remove and the path may rise above its root.
\<close>

fun normalize_segments :: "bool \<Rightarrow> string list \<Rightarrow> string list \<Rightarrow> string list" where
  "normalize_segments allowAboveRoot res [] = res"
| "normalize_segments allowAboveRoot res (seg # segs) =
     (if seg = [] \<or> seg = ''.'' then normalize_segments allowAboveRoot res segs
      else if seg = ''..'' then
        (if res \<noteq> [] \<and> last res \<noteq> ''..'' then normalize_segments allowAboveRoot (butlast res) segs
         else if allowAboveRoot then normalize_segments allowAboveRoot (res @ [''..'']) segs
         else normalize_segments allowAboveRoot res segs)
      else normalize_segments allowAboveRoot (res @ [seg]) segs)"

fun join_segments :: "string list \<Rightarrow> string" where
  "join_segments [] = []"
| "join_segments [s] = s"
| "join_segments (s # t # ss) = s @ CHR ''/'' # join_segments (t # ss)"

definition normalizeString :: "string \<Rightarrow> bool \<Rightarrow> string" where
  "normalizeString p allowAboveRoot =
     join_segments (normalize_segments allowAboveRoot [] (split_on CHR ''/'' p))"

definition isAbsolute :: "string \<Rightarrow> bool" where
  "isAbsolute p = (case p of [] \<Rightarrow> False | c # cs \<Rightarrow> c = CHR ''/'')"

text \<open>
  \<open>path.resolve\<close> reads its arguments from the last to the first until the path is
  absolute, and the working directory after them; an argument it reads must be a
  string. The arguments are given in reverse to \<open>resolve_args\<close>.
\<close>

fun resolve_args :: "string \<Rightarrow> jsval list \<Rightarrow> string \<Rightarrow> error + (string \<times> bool)" where
  "resolve_args cwd [] resolvedPath =
     (if cwd = [] then Inr (resolvedPath, False)
      else Inr (cwd @ CHR ''/'' # resolvedPath, isAbsolute cwd))"
| "resolve_args cwd (Str p # rest) resolvedPath =
     (if p = [] then resolve_args cwd rest resolvedPath
      else if isAbsolute p then Inr (p @ CHR ''/'' # resolvedPath, True)
      else resolve_args cwd rest (p @ CHR ''/'' # resolvedPath))"
| "resolve_args cwd (v # rest) resolvedPath = Inl TypeError"

definition path_resolve :: "string \<Rightarrow> jsval list \<Rightarrow> error + string" where
  "path_resolve cwd args =
     (case resolve_args cwd (rev args) [] of
        Inl e \<Rightarrow> Inl e
      | Inr (resolvedPath, resolvedAbsolute) \<Rightarrow>
          (let n = normalizeString resolvedPath (\<not> resolvedAbsolute)
           in if resolvedAbsolute then Inr (CHR ''/'' # n)
              else if n \<noteq> [] then Inr n
              else Inr ''.''))"

text \<open>\<open>path.join\<close> of strings: the non-empty arguments joined by a slash, normalized.\<close>

definition path_normalize :: "string \<Rightarrow> string" where
  "path_normalize p =
     (if p = [] then ''.''
      else let n = normalizeString p (\<not> isAbsolute p); trailing = (last p = CHR ''/'')
           in if n = [] then (if isAbsolute p then ''/'' else if trailing then ''./'' else ''.'')
              else (if isAbsolute p then ''/'' else []) @ n @ (if trailing then ''/'' else []))"

definition path_join :: "string list \<Rightarrow> string" where
  "path_join args =
     (let joined = join_segments (filter (\<lambda>a. a \<noteq> []) args)
      in if joined = [] then ''.'' else path_normalize joined)"

text \<open>
  The segments of a normalized absolute path: none is empty, \<open>.\<close> or \<open>..\<close>, and none
  holds a slash.
\<close>

definition clean_segments :: "string list \<Rightarrow> bool" where
  "clean_segments segs =
     (\<forall>s\<in>set segs. s \<noteq> [] \<and> s \<noteq> ''.'' \<and> s \<noteq> ''..'' \<and> CHR ''/'' \<notin> set s)"

section \<open>Matching functions\<close>

text \<open>
  The fragment of the pattern language of \<open>RegExp\<close> that is modelled: a pattern
  character, the dot, the assertions \<open>^\<close> and \<open>$\<close>, and a backslash before a syntax
  character or a slash. A pattern with a quantifier, a group, a class, an alternative
  or another escape is outside the model. A pattern that ends in a backslash is a
  syntax error.
\<close>

datatype rx_term = Lit char | AnyChar | Bol | Eol

definition syntax_character :: "char \<Rightarrow> bool" where
  "syntax_character c = (c \<in> set ''^$.*+?()[]{}|'' \<or> c = CHR 0x5C)"

fun parse_pattern :: "string \<Rightarrow> error + rx_term list" where
  "parse_pattern [] = Inr []"
| "parse_pattern [c] =
     (if c = CHR 0x5C then Inl SyntaxError
      else if c = CHR ''.'' then Inr [AnyChar]
      else if c = CHR ''^'' then Inr [Bol]
      else if c = CHR ''$'' then Inr [Eol]
      else if syntax_character c then Inl Unsupported
      else Inr [Lit c])"
| "parse_pattern (c # e # cs) =
     (if c = CHR 0x5C then
        (if syntax_character e \<or> e = CHR ''/'' then
           (case parse_pattern cs of Inl x \<Rightarrow> Inl x | Inr ts \<Rightarrow> Inr (Lit e # ts))
         else Inl Unsupported)
      else if syntax_character c \<and> c \<notin> set ''.^$'' then Inl Unsupported
      else (case parse_pattern (e # cs) of
              Inl x \<Rightarrow> Inl x
            | Inr ts \<Rightarrow>
                Inr ((if c = CHR ''.'' then AnyChar else if c = CHR ''^'' then Bol
                      else if c = CHR ''$'' then Eol else Lit c) # ts)))"

text \<open>
  A match of the terms at one position of the input; \<open>atStart\<close> says that the position
  is the start of the input (no flag is set, so \<open>^\<close> holds only there and \<open>$\<close> only at
  the end). The dot takes any character but a line terminator.
\<close>

fun match_here :: "rx_term list \<Rightarrow> bool \<Rightarrow> string \<Rightarrow> bool" where
  "match_here [] atStart s = True"
| "match_here (Lit c # ts) atStart [] = False"
| "match_here (Lit c # ts) atStart (x # r) = (x = c \<and> match_here ts False r)"
| "match_here (AnyChar # ts) atStart [] = False"
| "match_here (AnyChar # ts) atStart (x # r) =
     (x \<noteq> CHR 0x0A \<and> x \<noteq> CHR 0x0D \<and> match_here ts False r)"
| "match_here (Bol # ts) atStart s = (atStart \<and> match_here ts atStart s)"
| "match_here (Eol # ts) atStart s = (s = [] \<and> match_here ts atStart s)"

text \<open>\<open>String.prototype.match\<close> looks for a match at every position, the first first.\<close>

fun search :: "rx_term list \<Rightarrow> bool \<Rightarrow> string \<Rightarrow> bool" where
  "search ts atStart [] = match_here ts atStart []"
| "search ts atStart (x # r) = (match_here ts atStart (x # r) \<or> search ts False r)"

text \<open>
  \<open>valueToFunction\<close>: a string becomes \<open>new RegExp(`^${value}`)\<close>, which throws on a
  pattern that is not well formed; what is not a function then becomes the closure
  around it.
\<close>

definition valueToFunction :: "jsval \<Rightarrow> error + jsval" where
  "valueToFunction v =
     (case (case v of
              Str s \<Rightarrow>
                (case parse_pattern (CHR ''^'' # s) of
                   Inl e \<Rightarrow> Inl e
                 | Inr ts \<Rightarrow> Inr (RegExp (CHR ''^'' # s) []))
            | _ \<Rightarrow> Inr v) of
        Inl e \<Rightarrow> Inl e
      | Inr functionValue \<Rightarrow>
          Inr (if \<not> isFunction functionValue then MatchFn functionValue else functionValue))"

text \<open>
  The call of a matching function on a path. Only the closures of \<open>valueToFunction\<close>
  around a regular expression without flags are run; a function of the configuration
  itself is opaque.
\<close>

fun call_matcher :: "jsval \<Rightarrow> string \<Rightarrow> error + bool" where
  "call_matcher (MatchFn (RegExp src flags)) filePath =
     (if flags \<noteq> [] then Inl Unsupported
      else (case parse_pattern src of
              Inl e \<Rightarrow> Inl Unsupported
            | Inr ts \<Rightarrow> Inr (search ts True filePath)))"
| "call_matcher f filePath = Inl Unsupported"

section \<open>The configuration store\<close>

subsection \<open>External collaborators\<close>

text \<open>
  What \<open>Config\<close> imports and does not define: the working directory of the process,
  the configuration file name (\<open>Constants.ConfigFilename\<close>), \<open>require\<close> of a file
  and the call of a function it exports, the schema's \<open>validate\<close> (its result is the
  pair of \<open>error\<close> and \<open>value\<close>; \<open>None\<close> is an absent error), \<open>resolve.sync\<close> (\<open>None\<close>
  when the module cannot be located), and the three asset processor modules.
\<close>

record validation_error =
  message :: string
  annotate :: string

record env =
  cwd :: string
  ConfigFilename :: string
  require :: "string \<Rightarrow> error + jsval"
  call_function :: "string \<Rightarrow> error + jsval"
  schema_validate :: "jsval \<Rightarrow> validation_error option \<times> jsval"
  resolve_sync :: "string \<Rightarrow> string \<Rightarrow> string option"
  browserify :: jsval
  less :: jsval
  sass :: jsval

text \<open>
  Modelled from the spec: \<open>Constants.SourceKey\<close>, the key of the source entry of the
  path set (\<open>path.{source,destination,templates,data}\<close>); the code reads the same entry
  as \<open>this._raw.path.source\<close>.
\<close>

definition SourceKey :: string where
  "SourceKey = ''source''"

definition assetProcessors :: "env \<Rightarrow> jsval" where
  "assetProcessors E = Obj [(''browserify'', browserify E), (''less'', less E), (''sass'', sass E)]"

definition requireLocalModule :: "env \<Rightarrow> string \<Rightarrow> string \<Rightarrow> error + jsval" where
  "requireLocalModule E moduleName basedir =
     (case resolve_sync E moduleName basedir of
        None \<Rightarrow> Inl (ModuleResolutionError moduleName basedir)
      | Some modulePath \<Rightarrow> require E modulePath)"

definition loadConfigFile :: "env \<Rightarrow> string \<Rightarrow> error + jsval" where
  "loadConfigFile E root = require E (path_join [root, ConfigFilename E])"

subsection \<open>lodash: \<open>_.defaultsDeep\<close>, \<open>_.flatten\<close>, \<open>_.each\<close>\<close>

fun isObject :: "jsval \<Rightarrow> bool" where
  "isObject Undefined = False"
| "isObject Null = False"
| "isObject (Bool b) = False"
| "isObject (Num n) = False"
| "isObject (Str s) = False"
| "isObject _ = True"

text \<open>
  \<open>defaultsDeep v d\<close> is the value a property holds after the merge, when it held \<open>v\<close>
  and the source holds \<open>d\<close>: two objects are merged property by property, two arrays
  index by index, an undefined value takes the source's, any other value stays. A source
  without enumerable properties of its own changes nothing. The merge of an array with
  a plain object, and of properties into a function, is outside the model.
\<close>

fun defaultsDeep :: "jsval \<Rightarrow> jsval \<Rightarrow> error + jsval"
  and merge_props :: "(string \<times> jsval) list \<Rightarrow> (string \<times> jsval) list \<Rightarrow> error + (string \<times> jsval) list"
  and merge_items :: "jsval list \<Rightarrow> jsval list \<Rightarrow> error + jsval list" where
  "defaultsDeep v (Obj ds) =
     (case v of
        Obj kvs \<Rightarrow> (case merge_props kvs ds of Inl e \<Rightarrow> Inl e | Inr r \<Rightarrow> Inr (Obj r))
      | BareObj \<Rightarrow> (case merge_props [] ds of Inl e \<Rightarrow> Inl e | Inr r \<Rightarrow> Inr (Obj r))
      | Undefined \<Rightarrow> Inr (Obj ds)
      | _ \<Rightarrow> if isObject v \<and> ds \<noteq> [] then Inl Unsupported else Inr v)"
| "defaultsDeep v (Arr ys) =
     (case v of
        Arr xs \<Rightarrow> (case merge_items xs ys of Inl e \<Rightarrow> Inl e | Inr r \<Rightarrow> Inr (Arr r))
      | Undefined \<Rightarrow> Inr (Arr ys)
      | _ \<Rightarrow> if isObject v \<and> ys \<noteq> [] then Inl Unsupported else Inr v)"
| "defaultsDeep v d = Inr (if v = Undefined then d else v)"
| "merge_props kvs [] = Inr kvs"
| "merge_props kvs ((k, d) # ds) =
     (case map_of kvs k of
        None \<Rightarrow> merge_props (kvs @ [(k, d)]) ds
      | Some v \<Rightarrow>
          (case defaultsDeep v d of
             Inl e \<Rightarrow> Inl e
           | Inr v' \<Rightarrow> merge_props (AList.update k v' kvs) ds))"
| "merge_items xs [] = Inr xs"
| "merge_items [] (y # ys) = Inr (y # ys)"
| "merge_items (x # xs) (y # ys) =
     (case defaultsDeep x y of
        Inl e \<Rightarrow> Inl e
      | Inr v \<Rightarrow> (case merge_items xs ys of Inl e \<Rightarrow> Inl e | Inr r \<Rightarrow> Inr (v # r)))"

text \<open>
  The call \<open>_.defaultsDeep(value, defaults)\<close> itself: the destination is made an object
  (\<open>Object(value)\<close>; an empty one for a nullish value) and is the result.
\<close>

definition defaultsDeep_call :: "jsval \<Rightarrow> jsval \<Rightarrow> error + jsval" where
  "defaultsDeep_call v defaults =
     (case v of
        Obj kvs \<Rightarrow> defaultsDeep v defaults
      | Undefined \<Rightarrow> defaultsDeep (Obj []) defaults
      | Null \<Rightarrow> defaultsDeep (Obj []) defaults
      | _ \<Rightarrow> Inl Unsupported)"

text \<open>\<open>_.flatten(Array.of(v))\<close>: the elements of an array, or the one value.\<close>

fun flatten_of :: "jsval \<Rightarrow> jsval list" where
  "flatten_of (Arr xs) = xs"
| "flatten_of v = [v]"

text \<open>
  \<open>_.each\<close> and \<open>_.forEach\<close> walk an object by its own keys, unless it is array-like (it
  has a \<open>length\<close> that is a valid array length); then they walk it by index, which is
  outside the model.
\<close>

definition array_like :: "(string \<times> jsval) list \<Rightarrow> bool" where
  "array_like kvs =
     (case map_of kvs ''length'' of
        Some (Num n) \<Rightarrow> 0 \<le> n \<and> n \<le> 9007199254740991
      | _ \<Rightarrow> False)"

subsection \<open>Arrays\<close>

fun map_result :: "('a \<Rightarrow> error + 'b) \<Rightarrow> 'a list \<Rightarrow> error + 'b list" where
  "map_result f [] = Inr []"
| "map_result f (x # xs) =
     (case f x of
        Inl e \<Rightarrow> Inl e
      | Inr y \<Rightarrow> (case map_result f xs of Inl e \<Rightarrow> Inl e | Inr ys \<Rightarrow> Inr (y # ys)))"

text \<open>
  \<open>a.map(f)\<close>: the array of the results, when \<open>a\<close> is an array. Any other value has no
  method \<open>map\<close> (a TypeError), unless it is an object with a property of that name.
\<close>

fun array_map :: "(jsval \<Rightarrow> error + jsval) \<Rightarrow> jsval \<Rightarrow> error + jsval" where
  "array_map f (Arr xs) = (case map_result f xs of Inl e \<Rightarrow> Inl e | Inr ys \<Rightarrow> Inr (Arr ys))"
| "array_map f (Obj kvs) = (if map_of kvs ''map'' = None then Inl TypeError else Inl Unsupported)"
| "array_map f v = Inl TypeError"

subsection \<open>The statements of \<open>update\<close>\<close>

text \<open>
  A statement takes the tree held in \<open>this._raw\<close> and returns the tree it leaves there,
  with the error it threw, if any. A statement that assigns once, after everything that
  can throw, is \<open>atomic\<close>.
\<close>

type_synonym stmt = "jsval \<Rightarrow> error option \<times> jsval"

definition atomic :: "(jsval \<Rightarrow> error + jsval) \<Rightarrow> stmt" where
  "atomic f raw = (case f raw of Inl e \<Rightarrow> (Some e, raw) | Inr raw' \<Rightarrow> (None, raw'))"

fun run_steps :: "stmt list \<Rightarrow> stmt" where
  "run_steps [] raw = (None, raw)"
| "run_steps (f # fs) raw =
     (case f raw of (Some e, raw') \<Rightarrow> (Some e, raw') | (None, raw') \<Rightarrow> run_steps fs raw')"

text \<open>\<open>this._raw[k1][k2] = v\<close>.\<close>

definition set_nested :: "jsval \<Rightarrow> string \<Rightarrow> string \<Rightarrow> jsval \<Rightarrow> error + jsval" where
  "set_nested raw k1 k2 v =
     (case js_prop raw k1 of
        Inl e \<Rightarrow> Inl e
      | Inr obj \<Rightarrow> (case js_set obj k2 v of Inl e \<Rightarrow> Inl e | Inr obj' \<Rightarrow> js_set raw k1 obj'))"

text \<open>\<open>path.resolve(a, this._raw.path[key])\<close>, stored back under the key.\<close>

definition resolve_entry :: "string \<Rightarrow> jsval \<Rightarrow> string \<Rightarrow> jsval \<Rightarrow> error + jsval" where
  "resolve_entry wd anchor key raw =
     (case js_prop raw ''path'' of
        Inl e \<Rightarrow> Inl e
      | Inr p \<Rightarrow>
          (case js_prop p key of
             Inl e \<Rightarrow> Inl e
           | Inr v \<Rightarrow>
               (case path_resolve wd [anchor, v] of
                  Inl e \<Rightarrow> Inl e
                | Inr r \<Rightarrow> set_nested raw ''path'' key (Str r))))"

definition resolve_source :: "env \<Rightarrow> string \<Rightarrow> jsval \<Rightarrow> error + jsval" where
  "resolve_source E root raw = resolve_entry (cwd E) (Str root) SourceKey raw"

text \<open>\<open>this._raw.path.source\<close>.\<close>

definition path_source :: "jsval \<Rightarrow> error + jsval" where
  "path_source raw =
     (case js_prop raw ''path'' of Inl e \<Rightarrow> Inl e | Inr p \<Rightarrow> js_prop p ''source'')"

fun resolve_paths :: "env \<Rightarrow> string list \<Rightarrow> stmt" where
  "resolve_paths E [] raw = (None, raw)"
| "resolve_paths E (key # keys) raw =
     (if key \<noteq> SourceKey then
        (case path_source raw of
           Inl e \<Rightarrow> (Some e, raw)
         | Inr src \<Rightarrow>
             (case resolve_entry (cwd E) src key raw of
                Inl e \<Rightarrow> (Some e, raw)
              | Inr raw' \<Rightarrow> resolve_paths E keys raw'))
      else resolve_paths E keys raw)"

definition each_path :: "env \<Rightarrow> stmt" where
  "each_path E raw =
     (case js_prop raw ''path'' of
        Inl e \<Rightarrow> (Some e, raw)
      | Inr (Obj kvs) \<Rightarrow>
          if array_like kvs then (Some Unsupported, raw) else resolve_paths E (js_keys kvs) raw
      | Inr v \<Rightarrow> (Some Unsupported, raw))"

text \<open>
  The scope of a sorted rule is made absolute in place. A \<open>scope.path\<close> that is neither
  absent nor a string is outside the model.
\<close>

definition absolute_scope :: "env \<Rightarrow> jsval \<Rightarrow> jsval \<Rightarrow> error + jsval" where
  "absolute_scope E raw defaultObj =
     (case js_prop defaultObj ''scope'' of
        Inl e \<Rightarrow> Inl e
      | Inr scope \<Rightarrow>
          (case js_prop scope ''path'' of
             Inl e \<Rightarrow> Inl e
           | Inr p \<Rightarrow>
               if isNullish p then Inr defaultObj
               else if \<not> isString p then Inl Unsupported
               else (case path_source raw of
                       Inl e \<Rightarrow> Inl e
                     | Inr src \<Rightarrow>
                         (case path_resolve (cwd E) [src, p] of
                            Inl e \<Rightarrow> Inl e
                          | Inr r \<Rightarrow> set_nested defaultObj ''scope'' ''path'' (Str r)))))"

definition sort_defaults :: "env \<Rightarrow> jsval \<Rightarrow> error + jsval" where
  "sort_defaults E raw =
     (case js_prop raw ''file'' of
        Inl e \<Rightarrow> Inl e
      | Inr file \<Rightarrow>
          (case js_prop file ''defaults'' of
             Inl e \<Rightarrow> Inl e
           | Inr defaults \<Rightarrow>
               (case sortBy_defaults defaults of
                  Inl e \<Rightarrow> Inl e
                | Inr sortedDefaults \<Rightarrow>
                    (case map_result (absolute_scope E raw) sortedDefaults of
                       Inl e \<Rightarrow> Inl e
                     | Inr ds \<Rightarrow> set_nested raw ''file'' ''defaults'' (Arr ds)))))"

definition resolveMiddlewareModules :: "env \<Rightarrow> string \<Rightarrow> jsval \<Rightarrow> error + jsval" where
  "resolveMiddlewareModules E root moduleVal =
     (case moduleVal of
        Str moduleName \<Rightarrow> requireLocalModule E moduleName root
      | _ \<Rightarrow> Inr moduleVal)"

definition ignore_step :: "jsval \<Rightarrow> error + jsval" where
  "ignore_step raw =
     (case js_prop raw ''ignore'' of
        Inl e \<Rightarrow> Inl e
      | Inr ig \<Rightarrow>
          (case array_map valueToFunction ig of
             Inl e \<Rightarrow> Inl e
           | Inr fs \<Rightarrow> js_set raw ''ignore'' fs))"

definition middlewares_step :: "env \<Rightarrow> string \<Rightarrow> jsval \<Rightarrow> error + jsval" where
  "middlewares_step E root raw =
     (case js_prop raw ''middlewares'' of
        Inl e \<Rightarrow> Inl e
      | Inr m \<Rightarrow>
          (case map_result (resolveMiddlewareModules E root) (flatten_of m) of
             Inl e \<Rightarrow> Inl e
           | Inr ms \<Rightarrow> js_set raw ''middlewares'' (Arr ms)))"

fun lifecycle_keys :: "env \<Rightarrow> string \<Rightarrow> string list \<Rightarrow> stmt" where
  "lifecycle_keys E root [] raw = (None, raw)"
| "lifecycle_keys E root (key # keys) raw =
     (case js_prop raw ''lifecycle'' of
        Inl e \<Rightarrow> (Some e, raw)
      | Inr lc \<Rightarrow>
          (case js_prop lc key of
             Inl e \<Rightarrow> (Some e, raw)
           | Inr val \<Rightarrow>
               (case map_result (resolveMiddlewareModules E root) (flatten_of val) of
                  Inl e \<Rightarrow> (Some e, raw)
                | Inr ms \<Rightarrow>
                    (case set_nested raw ''lifecycle'' key (Arr ms) of
                       Inl e \<Rightarrow> (Some e, raw)
                     | Inr raw' \<Rightarrow> lifecycle_keys E root keys raw'))))"

definition lifecycle_step :: "env \<Rightarrow> string \<Rightarrow> stmt" where
  "lifecycle_step E root raw =
     (case js_prop raw ''lifecycle'' of
        Inl e \<Rightarrow> (Some e, raw)
      | Inr (Obj kvs) \<Rightarrow>
          if array_like kvs then (Some Unsupported, raw)
          else lifecycle_keys E root (js_keys kvs) raw
      | Inr Undefined \<Rightarrow> (None, raw)
      | Inr Null \<Rightarrow> (None, raw)
      | Inr BareObj \<Rightarrow> (None, raw)
      | Inr v \<Rightarrow> (Some Unsupported, raw))"

text \<open>
  The \<open>use\<close> of an asset rule: a string is looked up in \<open>assetProcessors\<close> first, and
  required as a local module when the table holds nothing truthy under it.
\<close>

definition asset_use :: "env \<Rightarrow> string \<Rightarrow> jsval \<Rightarrow> error + jsval" where
  "asset_use E root useVal =
     (case useVal of
        Str name \<Rightarrow>
          (case js_prop (assetProcessors E) name of
             Inl e \<Rightarrow> Inl e
           | Inr processor \<Rightarrow>
               if truthy processor then Inr processor
               else requireLocalModule E name root)
      | _ \<Rightarrow> Inr useVal)"

definition asset_rule :: "env \<Rightarrow> string \<Rightarrow> jsval \<Rightarrow> error + jsval" where
  "asset_rule E root asset =
     (case js_prop asset ''use'' of
        Inl e \<Rightarrow> Inl e
      | Inr useVal \<Rightarrow>
          (case asset_use E root useVal of
             Inl e \<Rightarrow> Inl e
           | Inr u \<Rightarrow>
               (case js_prop asset ''test'' of
                  Inl e \<Rightarrow> Inl e
                | Inr t \<Rightarrow>
                    (case valueToFunction t of
                       Inl e \<Rightarrow> Inl e
                     | Inr f \<Rightarrow> Inr (Obj [(''test'', f), (''use'', u)])))))"

definition assets_step :: "env \<Rightarrow> string \<Rightarrow> jsval \<Rightarrow> error + jsval" where
  "assets_step E root raw =
     (case js_prop raw ''assets'' of
        Inl e \<Rightarrow> Inl e
      | Inr a \<Rightarrow>
          (case array_map (asset_rule E root) a of
             Inl e \<Rightarrow> Inl e
           | Inr rules \<Rightarrow> js_set raw ''assets'' rules))"

subsection \<open>\<open>Config\<close>: \<open>update\<close> and \<open>get\<close>\<close>

record config =
  root :: string
  raw :: jsval

definition new_Config :: "string \<Rightarrow> config" where
  "new_Config r = \<lparr>root = r, raw = BareObj\<rparr>"

text \<open>The two errors \<open>Config\<close> throws itself, under the names of the specification.\<close>

definition ValidationError :: "string \<Rightarrow> string \<Rightarrow> error" where
  "ValidationError filename msg = Error (filename @ '' validation error: '' @ msg)"

definition ConfigPathNotFound :: "string \<Rightarrow> error" where
  "ConfigPathNotFound objectPath =
     Error (''Tried to access config path '' @ [CHR 0x22] @ objectPath @ [CHR 0x22] @
            '' that does not exist.'')"

text \<open>The configuration tree: what the file exports, or what the exported function returns.\<close>

definition load_config :: "env \<Rightarrow> string \<Rightarrow> error + jsval" where
  "load_config E r =
     (case loadConfigFile E r of
        Inl e \<Rightarrow> Inl e
      | Inr loadedConfig \<Rightarrow>
          (case loadedConfig of
             Fun f \<Rightarrow> call_function E f
           | MatchFn m \<Rightarrow> Inl TypeError
           | _ \<Rightarrow> Inr loadedConfig))"

text \<open>The statements of \<open>update\<close> after the assignment of \<open>this._raw\<close>, in their order.\<close>

definition normalize_steps :: "env \<Rightarrow> string \<Rightarrow> stmt list" where
  "normalize_steps E r =
     [atomic (resolve_source E r), each_path E, atomic (sort_defaults E), atomic ignore_step,
      atomic (middlewares_step E r), lifecycle_step E r, atomic (assets_step E r)]"

text \<open>
  The tree that \<open>update\<close> assigns to \<open>this._raw\<close>: the loaded configuration, validated,
  with the defaults of the schema (\<open>schema.validate().value\<close>) merged under it. The
  message that \<open>log.error\<close> writes goes to the logger, not to the instance.
\<close>

definition load_validated :: "env \<Rightarrow> string \<Rightarrow> error + jsval" where
  "load_validated E r =
     (case load_config E r of
        Inl e \<Rightarrow> Inl e
      | Inr cfg \<Rightarrow>
          (case schema_validate E cfg of
             (Some err, v) \<Rightarrow> Inl (ValidationError (ConfigFilename E) (message err))
           | (None, v) \<Rightarrow> defaultsDeep_call v (snd (schema_validate E Undefined))))"

text \<open>\<open>update\<close> returns the error it threw, if any, and the instance as it is left.\<close>

definition update :: "env \<Rightarrow> config \<Rightarrow> error option \<times> config" where
  "update E c =
     (case load_validated E (root c) of
        Inl e \<Rightarrow> (Some e, c)
      | Inr merged \<Rightarrow>
          (case run_steps (normalize_steps E (root c)) merged of
             (err, raw') \<Rightarrow> (err, c\<lparr>raw := raw'\<rparr>)))"

text \<open>\<open>get(objectPath)\<close>; \<open>None\<close> is the call without argument.\<close>

definition get :: "config \<Rightarrow> string option \<Rightarrow> error + jsval" where
  "get c objectPath =
     (case objectPath of
        None \<Rightarrow> Inr (raw c)
      | Some p \<Rightarrow>
          (case lodash_get (raw c) p Undefined of
             Inl e \<Rightarrow> Inl e
           | Inr v \<Rightarrow> if isNullish v then Inl (ConfigPathNotFound p) else Inr v))"


text \<open>The own entry of the path set of a tree under a key.\<close>

definition path_entry :: "jsval \<Rightarrow> string \<Rightarrow> jsval option" where
  "path_entry tree k =
     (case js_prop tree ''path'' of Inr (Obj kvs) \<Rightarrow> map_of kvs k | _ \<Rightarrow> None)"

subsection \<open>A site\<close>

text \<open>
  The packaged configuration file as a tree, in a site at \<open>/site\<close>; its functions are
  opaque. The schema accepts any object and has defaults for the keys the file leaves
  out. In \<open>site_env\<close> the module \<open>reptar-excerpt\<close> is installed; in \<open>bare_env\<close> no
  module is.
\<close>

definition packaged_config :: jsval where
  "packaged_config = Obj
     [(''site'', Obj [(''title'', Str ''My Reptar Title''), (''email'', Str ''your-reptar@email.com''),
                     (''baseurl'', Str []), (''url'', Str ''http://yourdomain.com'')]),
      (''path'', Obj [(''source'', Str ''./''), (''destination'', Str ''./_site''),
                     (''templates'', Str ''./_templates''), (''data'', Str ''./_data'')]),
      (''file'', Obj [(''url_key'', Str ''url''), (''date_format'', Str ''YYYY-M-D''),
                     (''defaults'', Arr [ruleA, ruleB, ruleC]),
                     (''filters'', Obj [(''metadata'', Obj [(''draft'', Bool True)]),
                                       (''future_date'', Obj [(''key'', Str ''date'')])])]),
      (''assets'', Arr [Obj [(''test'', Str ''less''), (''use'', Str ''less'')],
                       Obj [(''test'', Str ''js''), (''use'', Str ''browserify'')],
                       Obj [(''test'', RegExp (CHR 0x5C # ''.s[ac]ss$'') []),
                            (''use'', Obj [(''calculateDestination'', Fun ''calculateDestination''),
                                          (''write'', Fun ''write'')])]]),
      (''clean_destination'', Bool False),
      (''slug'', Obj [(''lower'', Bool True)]),
      (''markdown'', Obj [(''extensions'', Arr [Str ''markdown'', Str ''mkdown'', Str ''mkdn'',
                                               Str ''mkd'', Str ''md'']),
                         (''options'', Obj [(''preset'', Str ''commonmark''), (''highlight'', Bool True)])]),
      (''server'', Obj [(''port'', Num 8080), (''host'', Str ''127.0.0.1''), (''baseurl'', Str [])]),
      (''incremental'', Bool True),
      (''new_file_permalink'', Str ''/_posts/:date|YYYY-:date|MM-:date|D-:title.md''),
      (''middlewares'', Arr [Str ''reptar-excerpt'', Fun ''reptarExcerpt'', Fun ''htmlMinify'']),
      (''lifecycle'', Obj [(''willUpdate'', Fun ''noopMiddleware''), (''didUpdate'', Fun ''noopMiddleware''),
                          (''willBuild'', Fun ''noopMiddleware''), (''didBuild'', Fun ''noopMiddleware'')])]"

definition schema_defaults :: jsval where
  "schema_defaults = Obj
     [(''path'', Obj [(''source'', Str ''./''), (''destination'', Str ''./_site'')]),
      (''file'', Obj [(''defaults'', Arr [])]),
      (''ignore'', Arr [Str ''node_modules'']),
      (''middlewares'', Arr []),
      (''lifecycle'', Obj []),
      (''assets'', Arr [])]"

definition site_validate :: "jsval \<Rightarrow> validation_error option \<times> jsval" where
  "site_validate v =
     (case v of
        Undefined \<Rightarrow> (None, schema_defaults)
      | Obj kvs \<Rightarrow> (None, v)
      | _ \<Rightarrow> (Some \<lparr>message = ''value must be an object'', annotate = ''value must be an object''\<rparr>, v))"

definition site_modules :: "string \<Rightarrow> error + jsval" where
  "site_modules file =
     (if file = ''/site/reptar.config.js'' then Inr packaged_config
      else if file = ''/site/node_modules/reptar-excerpt/index.js'' then Inr (Fun ''reptar-excerpt'')
      else Inl (Error ''Cannot find module''))"

definition site_env :: env where
  "site_env =
     \<lparr>cwd = ''/home/user'', ConfigFilename = ''reptar.config.js'', require = site_modules,
      call_function = (\<lambda>f. Inl TypeError), schema_validate = site_validate,
      resolve_sync = (\<lambda>name basedir.
        if name = ''reptar-excerpt'' \<and> basedir = ''/site''
        then Some ''/site/node_modules/reptar-excerpt/index.js'' else None),
      browserify = Obj [(''calculateDestination'', Fun ''browserify.calculateDestination''),
                        (''write'', Fun ''browserify.write'')],
      less = Obj [(''calculateDestination'', Fun ''less.calculateDestination''),
                  (''write'', Fun ''less.write'')],
      sass = Obj [(''calculateDestination'', Fun ''sass.calculateDestination''),
                  (''write'', Fun ''sass.write'')]\<rparr>"

definition bare_env :: env where
  "bare_env = site_env\<lparr>resolve_sync := (\<lambda>name basedir. None)\<rparr>"

text \<open>
  Two more sites: in \<open>invalid_env\<close> the configuration file exports a string, which the
  schema rejects; in \<open>missing_env\<close> there is no configuration file.
\<close>

definition invalid_env :: env where
  "invalid_env = site_env\<lparr>require := (\<lambda>file. Inr (Str ''not a tree''))\<rparr>"

definition missing_env :: env where
  "missing_env = site_env\<lparr>require := (\<lambda>file. Inl (Error ''Cannot find module''))\<rparr>"






section \<open>The renderer\<close>

text \<open>
  \<open>renderFileWithPlugins\<close> passes references around: a plugin may change the file object
  it is handed without returning it. A value here is a reference to an object of the
  store, a string or \<open>undefined\<close>; the store \<open>'s\<close> holds the objects. The plugin manager's
  \<open>processEventHandlers\<close> and the file's own \<open>render\<close> are collaborators: each takes the
  store and returns the store it leaves, with its result or the error it threw (for the
  dispatch, the rejection of its promise). The trace records every call of a
  collaborator, in order.
\<close>

datatype rval = RUndefined | RRef nat | RStr string

datatype call = Dispatch string "rval list" | Render nat rval

record 's collaborators =
  processEventHandlers :: "string \<Rightarrow> rval list \<Rightarrow> 's \<Rightarrow> (error + rval list) \<times> 's"
  file_render :: "nat \<Rightarrow> rval \<Rightarrow> 's \<Rightarrow> (error + rval) \<times> 's"

record 's world =
  store :: 's
  trace :: "call list"

text \<open>An event argument is given when it is truthy: a name that is not the empty string.\<close>

fun given :: "string option \<Rightarrow> bool" where
  "given None = False"
| "given (Some name) = (name \<noteq> [])"

definition dispatch ::
  "'s collaborators \<Rightarrow> string \<Rightarrow> rval list \<Rightarrow> 's world \<Rightarrow> (error + rval list) \<times> 's world" where
  "dispatch P name payload w =
     (case processEventHandlers P name payload (store w) of
        (r, s') \<Rightarrow> (r, \<lparr>store = s', trace = trace w @ [Dispatch name payload]\<rparr>))"

text \<open>\<open>file.render(siteData)\<close>: only an object has the method.\<close>

definition call_render ::
  "'s collaborators \<Rightarrow> rval \<Rightarrow> rval \<Rightarrow> 's world \<Rightarrow> (error + rval) \<times> 's world" where
  "call_render P file siteData w =
     (case file of
        RRef a \<Rightarrow>
          (case file_render P a siteData (store w) of
             (r, s') \<Rightarrow> (r, \<lparr>store = s', trace = trace w @ [Render a siteData]\<rparr>))
      | _ \<Rightarrow> (Inl TypeError, w))"

text \<open>The element of a destructured array at an index; \<open>undefined\<close> beyond its end.\<close>

definition element :: "rval list \<Rightarrow> nat \<Rightarrow> rval" where
  "element xs i = (if i < length xs then xs ! i else RUndefined)"

definition renderFileWithPlugins ::
  "'s collaborators \<Rightarrow> rval \<Rightarrow> rval \<Rightarrow> string option \<Rightarrow> string option \<Rightarrow> 's world
     \<Rightarrow> (error + rval \<times> rval) \<times> 's world" where
  "renderFileWithPlugins P file siteData eventBefore eventAfter w =
     (case (case eventBefore of
              Some name \<Rightarrow> if name \<noteq> [] then dispatch P name [file] w else (Inr [], w)
            | None \<Rightarrow> (Inr [], w)) of
        (Inl e, w1) \<Rightarrow> (Inl e, w1)
      | (Inr ignored, w1) \<Rightarrow>
          (case call_render P file siteData w1 of
             (Inl e, w2) \<Rightarrow> (Inl e, w2)
           | (Inr renderedFile, w2) \<Rightarrow>
               (case eventAfter of
                  Some name \<Rightarrow>
                    if name \<noteq> [] then
                      (case dispatch P name [file, renderedFile] w2 of
                         (Inl e, w3) \<Rightarrow> (Inl e, w3)
                       | (Inr result, w3) \<Rightarrow> (Inr (element result 0, element result 1), w3))
                    else (Inr (file, renderedFile), w2)
                | None \<Rightarrow> (Inr (file, renderedFile), w2))))"

text \<open>
  Collaborators for an example: the store maps a file to its body. The handlers of
  \<open>beforeRender\<close> edit file 1 in place and resolve to another file, the handlers of
  \<open>afterRender\<close> resolve to file 2 and a page of their own, and \<open>render\<close> wraps the
  body of the file.
\<close>

definition demo_plugins :: "(nat \<times> string) list collaborators" where
  "demo_plugins =
     \<lparr>processEventHandlers = (\<lambda>name payload s.
        if name = ''beforeRender'' then (Inr [RRef 99], AList.update 1 ''edited'' s)
        else if name = ''afterRender'' then (Inr [RRef 2, RStr ''<p>swapped</p>''], s)
        else (Inl (Error ''no such event''), s)),
      file_render = (\<lambda>a siteData s.
        case map_of s a of
          Some body \<Rightarrow> (Inr (RStr (''<p>'' @ body @ ''</p>'')), s)
        | None \<Rightarrow> (Inl (Error ''no such file''), s))\<rparr>"

definition demo_world :: "(nat \<times> string) list world" where
  "demo_world = \<lparr>store = [(1, ''draft'')], trace = []\<rparr>"

section \<open>Properties of the sort\<close>

lemma compareMultiple_less:
  "compareMultiple (c, i, d) (c', i', d') < 0 \<longleftrightarrow> (c, i) < (c', i')"
  by (cases c; cases c')
     (auto simp: compareMultiple_def compareAscending_def Let_def less_prod_def less_eq_prod_def)

lemma compareMultiple_zero:
  "compareMultiple (c, i, d) (c', i', d') = 0 \<longleftrightarrow> (c, i) = (c', i')"
  by (cases c; cases c')
     (auto simp: compareMultiple_def compareAscending_def Let_def)

lemma insort_key_cong_on:
  "(\<forall>y\<in>set ys. (f x \<le> f y) = (g x \<le> g y)) \<Longrightarrow> insort_key f x ys = insort_key g x ys"
  by (induction ys) auto

lemma js_prop_Obj_own: "map_of kvs k = Some v \<Longrightarrow> js_prop (Obj kvs) k = Inr v"
  by simp

lemma js_prop_Obj_absent:
  "map_of kvs k = None \<Longrightarrow> map_of object_prototype k = None \<Longrightarrow> js_prop (Obj kvs) k = Inr Undefined"
  by simp

lemma proto_scope [simp]: "map_of object_prototype ''scope'' = None"
  "map_of object_prototype ''path'' = None" "map_of object_prototype ''metadata'' = None"
  by (simp_all add: object_prototype_def object_prototype_methods_def)

lemma split_scope_path: "split_on CHR ''.'' ''scope.path'' = [''scope'', ''path'']"
  by simp

lemma criteria_DefaultRule:
  assumes "is_DefaultRule d"
  shows "\<exists>c. criteria d = Inr c \<and> key_of_criteria c = spec_sort_key d"
proof -
  from assms obtain kvs sc where d: "d = Obj kvs" and nk: "map_of kvs ''scope.path'' = None"
    and sc: "map_of kvs ''scope'' = Some (Obj sc)"
    and p: "map_of sc ''path'' = None \<or> (\<exists>s. map_of sc ''path'' = Some (Str s))"
    and m: "map_of sc ''metadata'' = None \<or> (\<exists>m. map_of sc ''metadata'' = Some (Obj m))"
    unfolding is_DefaultRule_def by (auto split: jsval.splits option.splits)
  have cp: "castPath d ''scope.path'' = Inr [''scope'', ''path'']"
    using d nk by (simp add: castPath_def)
  have rs: "rule_scope d = sc" using d sc by (simp add: rule_scope_def)
  have hm: "hasMetadata d = Inr (map_of sc ''metadata'' \<noteq> None)"
    using d sc m by (auto simp: hasMetadata_def)
  from p show ?thesis
  proof
    assume a: "map_of sc ''path'' = None"
    have "pathLength d = Inr 0"
      using d sc a cp by (simp add: pathLength_def lodash_get_def)
    then show ?thesis using hm rs a m
      by (auto simp: criteria_def key_of_criteria_def spec_sort_key_def)
  next
    assume "\<exists>s. map_of sc ''path'' = Some (Str s)"
    then obtain s where a: "map_of sc ''path'' = Some (Str s)" by blast
    have "pathLength d = Inr (length s)"
      using d sc a cp by (simp add: pathLength_def lodash_get_def)
    then show ?thesis using hm rs a m
      by (auto simp: criteria_def key_of_criteria_def spec_sort_key_def)
  qed
qed

lemma decorate_Cons:
  "decorate i (d # ds) = Inr dec \<Longrightarrow>
     \<exists>c r. criteria d = Inr c \<and> decorate (Suc i) ds = Inr r \<and> dec = (c, i, d) # r"
  by (auto split: sum.splits)

lemma decorate_indices:
  "decorate i ds = Inr dec \<Longrightarrow> map (\<lambda>(c, j, d). j) dec = [i ..< i + length ds]"
proof (induction ds arbitrary: i dec)
  case Nil then show ?case by simp
next
  case (Cons d ds)
  from decorate_Cons[OF Cons.prems] obtain c r where
    r: "decorate (Suc i) ds = Inr r" and dec: "dec = (c, i, d) # r" by blast
  have "map (\<lambda>(c, j, d). j) r = [Suc i ..< Suc i + length ds]" using Cons.IH[OF r] .
  then show ?case using dec by (simp add: upt_conv_Cons del: upt_Suc)
qed

lemma decorate_values:
  "decorate i ds = Inr dec \<Longrightarrow> map (\<lambda>(c, j, d). d) dec = ds"
proof (induction ds arbitrary: i dec)
  case Nil then show ?case by simp
next
  case (Cons d ds)
  from decorate_Cons[OF Cons.prems] obtain c r where
    r: "decorate (Suc i) ds = Inr r" and dec: "dec = (c, i, d) # r" by blast
  show ?case using Cons.IH[OF r] dec by simp
qed

lemma decorate_criteria:
  "decorate i ds = Inr dec \<Longrightarrow> (c, j, d) \<in> set dec \<Longrightarrow> criteria d = Inr c"
proof (induction ds arbitrary: i dec)
  case Nil then show ?case by simp
next
  case (Cons d' ds)
  from decorate_Cons[OF Cons.prems(1)] obtain c' r where
    c': "criteria d' = Inr c'" and r: "decorate (Suc i) ds = Inr r" and dec: "dec = (c', i, d') # r"
    by blast
  show ?case using Cons.IH[OF r] Cons.prems(2) dec c' by auto
qed

lemma decorate_total:
  "list_all is_DefaultRule ds \<Longrightarrow> \<exists>dec. decorate i ds = Inr dec"
proof (induction ds arbitrary: i)
  case Nil then show ?case by simp
next
  case (Cons d ds)
  from Cons.prems have "is_DefaultRule d" and rest: "list_all is_DefaultRule ds" by simp_all
  then obtain c where c: "criteria d = Inr c" using criteria_DefaultRule by blast
  from Cons.IH[OF rest] obtain dec where "decorate (Suc i) ds = Inr dec" by blast
  with c show ?case by simp
qed

lemma index_tiebreak_le:
  "i < j \<Longrightarrow> ((c :: nat \<times> bool, i :: nat) \<le> (c', j)) = (c \<le> c')"
  unfolding less_eq_prod_def[of "(c, i)" "(c', j)"] by auto

lemma sort_index_tiebreak:
  "sorted_wrt (<) (map (\<lambda>(c, j, d). j) dec) \<Longrightarrow>
   sort_key (\<lambda>(c, i, d). (c, i)) dec = sort_key fst (dec :: ((nat \<times> bool) \<times> nat \<times> jsval) list)"
proof (induction dec)
  case Nil then show ?case by simp
next
  case (Cons x dec)
  let ?f = "\<lambda>(c :: nat \<times> bool, i :: nat, d :: jsval). (c, i)"
  obtain c i d where x: "x = (c, i, d)" by (cases x)
  have ih: "sort_key ?f dec = sort_key fst dec"
    using Cons by simp
  have "\<forall>y\<in>set dec. i < (case y of (c, j, d) \<Rightarrow> j)"
    using Cons.prems x by auto
  then have "\<forall>y\<in>set (sort_key fst dec). (?f x \<le> ?f y) = (fst x \<le> fst y)"
    using x by (auto simp: index_tiebreak_le)
  then have "insort_key ?f x (sort_key fst dec) = insort_key fst x (sort_key fst dec)"
    by (rule insort_key_cong_on)
  then show ?case
    by (simp only: sort_key_simps ih)
qed

lemma key_of_criteria_mono: "c \<le> c' \<Longrightarrow> key_of_criteria c \<le> key_of_criteria c'"
  by (cases c; cases c') (auto simp: key_of_criteria_def less_eq_prod_def)

lemma key_of_criteria_inj: "key_of_criteria c = key_of_criteria c' \<Longrightarrow> c = c'"
  by (cases c; cases c') (auto simp: key_of_criteria_def split: if_splits)

lemma sortBy_defaults_rules:
  assumes wf: "list_all is_DefaultRule ds"
  shows "\<exists>out. sortBy_defaults (Arr ds) = Inr out \<and> mset out = mset ds \<and>
           sorted (map spec_sort_key out) \<and>
           (\<forall>k. filter (\<lambda>d. spec_sort_key d = k) out = filter (\<lambda>d. spec_sort_key d = k) ds)"
proof -
  define g where "g = (fst :: (nat \<times> bool) \<times> nat \<times> jsval \<Rightarrow> nat \<times> bool)"
  define val where "val = (\<lambda>(c :: nat \<times> bool, i :: nat, d :: jsval). d)"
  from decorate_total[OF wf] obtain dec where dec: "decorate 0 ds = Inr dec" by blast
  define srt where "srt = sort_key g dec"
  have vals: "map val dec = ds" using decorate_values[OF dec] by (simp add: val_def)
  have "map (\<lambda>(c, j, d). j) dec = [0 ..< length ds]" using decorate_indices[OF dec] by simp
  then have "sorted_wrt (<) (map (\<lambda>(c, j, d). j) dec)" by simp
  then have bs: "baseSortBy dec = srt"
    unfolding baseSortBy_def srt_def g_def by (rule sort_index_tiebreak)
  have res: "sortBy_defaults (Arr ds) = Inr (map val srt)"
    using dec bs by (simp add: sortBy_defaults_def val_def)
  have key: "spec_sort_key (val t) = key_of_criteria (g t)" if "t \<in> set dec" for t
  proof -
    obtain c j d where t: "t = (c, j, d)" by (cases t)
    have "d \<in> set ds" using that vals t by (force simp: val_def)
    then have "is_DefaultRule d" using wf by (simp add: list_all_iff)
    moreover have "criteria d = Inr c" using decorate_criteria[OF dec] that t by blast
    ultimately show ?thesis using criteria_DefaultRule[of d] t by (auto simp: val_def g_def)
  qed
  have set_srt: "set srt = set dec" by (simp add: srt_def)
  have perm: "mset (map val srt) = mset ds"
  proof -
    have "mset (map val srt) = image_mset val (mset srt)" by simp
    also have "mset srt = mset dec" by (simp add: srt_def)
    also have "image_mset val (mset dec) = mset (map val dec)" by simp
    finally show ?thesis using vals by simp
  qed
  have eq: "map (spec_sort_key \<circ> val) srt = map (key_of_criteria \<circ> g) srt"
    by (rule map_cong) (use key set_srt in auto)
  have "sorted (map g srt)" by (simp add: srt_def)
  then have "sorted (map (key_of_criteria \<circ> g) srt)"
    by (simp add: sorted_wrt_map sorted_wrt_mono_rel[where P="\<lambda>x y. g x \<le> g y"] key_of_criteria_mono)
  then have srtd: "sorted (map spec_sort_key (map val srt))"
    unfolding map_map eq .
  have stab: "filter (\<lambda>d. spec_sort_key d = k) (map val srt) = filter (\<lambda>d. spec_sort_key d = k) ds" for k
  proof -
    have flt: "filter (\<lambda>t. key_of_criteria (g t) = k) srt = filter (\<lambda>t. key_of_criteria (g t) = k) dec"
    proof (cases "\<exists>c. key_of_criteria c = k")
      case True
      then obtain c where c: "key_of_criteria c = k" by blast
      have "(key_of_criteria (g t) = k) = (g t = c)" for t
        using c key_of_criteria_inj by blast
      then show ?thesis by (simp add: srt_def sort_key_stable)
    next
      case False
      then have "\<And>t. key_of_criteria (g t) \<noteq> k" by blast
      then show ?thesis by simp
    qed
    have "filter (\<lambda>d. spec_sort_key d = k) (map val srt)
            = map val (filter (\<lambda>t. spec_sort_key (val t) = k) srt)"
      by (simp add: filter_map comp_def)
    also have "filter (\<lambda>t. spec_sort_key (val t) = k) srt = filter (\<lambda>t. key_of_criteria (g t) = k) srt"
      using key set_srt by (intro filter_cong) auto
    also have "\<dots> = filter (\<lambda>t. key_of_criteria (g t) = k) dec" by (rule flt)
    also have "\<dots> = filter (\<lambda>t. spec_sort_key (val t) = k) dec"
      using key by (intro filter_cong) auto
    also have "map val \<dots> = filter (\<lambda>d. spec_sort_key d = k) (map val dec)"
      by (simp add: filter_map comp_def)
    finally show ?thesis using vals by simp
  qed
  show ?thesis using res perm srtd stab by blast
qed

text \<open>
  C1. \<open>_.sortBy\<close> with the two iteratees of \<open>update\<close> sorts every list of default rules
  stably by the composite key of the specification: the result is a permutation of the
  declared list, ascending in (length of \<open>scope.path\<close> or 0, 0 without \<open>scope.metadata\<close>
  and 1 with it; pairs in their lexicographic order), and the rules of any one key keep
  their declared order. The rules A, B
  and C of the packaged configuration, declared in that order, come out as C, A, B.
\<close>

theorem defaults_sorted_stably:
  "(list_all is_DefaultRule ds \<longrightarrow>
      (\<exists>out. sortBy_defaults (Arr ds) = Inr out \<and> mset out = mset ds \<and>
         sorted (map spec_sort_key out) \<and>
         (\<forall>k. filter (\<lambda>d. spec_sort_key d = k) out = filter (\<lambda>d. spec_sort_key d = k) ds))) \<and>
   sortBy_defaults (Arr [ruleA, ruleB, ruleC]) = Inr [ruleC, ruleA, ruleB]"
proof (intro conjI impI)
  assume "list_all is_DefaultRule ds"
  then show "\<exists>out. sortBy_defaults (Arr ds) = Inr out \<and> mset out = mset ds \<and>
         sorted (map spec_sort_key out) \<and>
         (\<forall>k. filter (\<lambda>d. spec_sort_key d = k) out = filter (\<lambda>d. spec_sort_key d = k) ds)"
    by (rule sortBy_defaults_rules)
next
  show "sortBy_defaults (Arr [ruleA, ruleB, ruleC]) = Inr [ruleC, ruleA, ruleB]"
    by code_simp
qed

theorem defaults_sorted_stably_witness:
  "list_all is_DefaultRule [ruleA, ruleC, ruleB, ruleA] \<and>
   (\<exists>out. sortBy_defaults (Arr [ruleA, ruleC, ruleB, ruleA]) = Inr out \<and>
      mset out = mset [ruleA, ruleC, ruleB, ruleA] \<and>
      sorted (map spec_sort_key out) \<and>
      (\<forall>k. filter (\<lambda>d. spec_sort_key d = k) out
             = filter (\<lambda>d. spec_sort_key d = k) [ruleA, ruleC, ruleB, ruleA]))"
proof -
  have wf: "list_all is_DefaultRule [ruleA, ruleC, ruleB, ruleA]" by code_simp
  with defaults_sorted_stably[of "[ruleA, ruleC, ruleB, ruleA]"] show ?thesis by blast
qed

section \<open>Properties of the matching functions\<close>

lemma parse_pattern_literal:
  "list_all (\<lambda>c. \<not> syntax_character c) s \<Longrightarrow> parse_pattern s = Inr (map Lit s)"
proof (induction s rule: parse_pattern.induct)
  case 1 then show ?case by simp
next
  case (2 c)
  then show ?case by (auto simp: syntax_character_def)
next
  case (3 c e cs)
  from "3.prems" have c: "\<not> syntax_character c" and rest: "list_all (\<lambda>c. \<not> syntax_character c) (e # cs)"
    by simp_all
  from c have nb: "c \<noteq> CHR 0x5C" "c \<noteq> CHR ''.''" "c \<noteq> CHR ''^''" "c \<noteq> CHR ''$''"
    by (auto simp: syntax_character_def)
  have "parse_pattern (e # cs) = Inr (map Lit (e # cs))"
    using "3.IH"(2) nb c rest by simp
  then show ?case using nb c by simp
qed

lemma parse_pattern_anchored:
  assumes "list_all (\<lambda>c. \<not> syntax_character c) s"
  shows "parse_pattern (CHR ''^'' # s) = Inr (Bol # map Lit s)"
proof (cases s)
  case Nil then show ?thesis by simp
next
  case (Cons e cs)
  have "parse_pattern (e # cs) = Inr (map Lit (e # cs))"
    using assms Cons parse_pattern_literal by blast
  then show ?thesis using Cons by (simp add: syntax_character_def)
qed

lemma match_here_literal: "match_here (map Lit s) b c = prefix s c"
proof (induction s arbitrary: b c)
  case Nil then show ?case by simp
next
  case (Cons x s)
  then show ?case by (cases c) auto
qed

lemma search_Bol_later: "search (Bol # ts) False c = False"
  by (induction c) auto

lemma search_anchored: "search (Bol # map Lit s) True c = prefix s c"
  by (cases c) (simp_all add: match_here_literal search_Bol_later)

lemma valueToFunction_literal:
  assumes "list_all (\<lambda>c. \<not> syntax_character c) s"
  shows "valueToFunction (Str s) = Inr (MatchFn (RegExp (CHR ''^'' # s) []))"
    and "call_matcher (MatchFn (RegExp (CHR ''^'' # s) [])) c = Inr (prefix s c)"
  using parse_pattern_anchored[OF assms]
  by (simp_all add: valueToFunction_def search_anchored)

text \<open>
  C3, as stated, fails: the string is the source of a regular expression, not a
  literal. The matcher of \<open>'.git'\<close> accepts \<open>'agit'\<close>, which does not start with \<open>'.git'\<close>.
\<close>

theorem string_matcher_counterexample:
  "valueToFunction (Str ''.git'') = Inr (MatchFn (RegExp ''^.git'' [])) \<and>
   call_matcher (MatchFn (RegExp ''^.git'' [])) ''agit'' = Inr True \<and>
   \<not> prefix ''.git'' ''agit''"
  by (simp add: valueToFunction_def syntax_character_def)

text \<open>
  C3, amended. For every string that holds no syntax character of regular expressions
  (\<open>^ $ . * + ? ( ) [ ] { } |\<close> and the backslash) \<open>valueToFunction\<close> returns a matcher,
  and for every candidate path the matcher returns true if and only if the path starts
  with the string; the matcher of \<open>'foo'\<close> accepts \<open>'foobar'\<close> and rejects \<open>'barfoo'\<close>.
\<close>

theorem string_matcher_prefix:
  "(list_all (\<lambda>c. \<not> syntax_character c) s \<longrightarrow>
      (\<exists>f. valueToFunction (Str s) = Inr f \<and> (\<forall>c. call_matcher f c = Inr (prefix s c)))) \<and>
   (\<exists>f. valueToFunction (Str ''foo'') = Inr f \<and>
        call_matcher f ''foobar'' = Inr True \<and> call_matcher f ''barfoo'' = Inr False)"
proof (intro conjI impI)
  assume "list_all (\<lambda>c. \<not> syntax_character c) s"
  from valueToFunction_literal[OF this]
  show "\<exists>f. valueToFunction (Str s) = Inr f \<and> (\<forall>c. call_matcher f c = Inr (prefix s c))"
    by blast
next
  have "list_all (\<lambda>c. \<not> syntax_character c) ''foo''" by (simp add: syntax_character_def)
  from valueToFunction_literal[OF this]
  show "\<exists>f. valueToFunction (Str ''foo'') = Inr f \<and>
        call_matcher f ''foobar'' = Inr True \<and> call_matcher f ''barfoo'' = Inr False"
    by simp
qed

theorem string_matcher_prefix_witness:
  "list_all (\<lambda>c. \<not> syntax_character c) ''node_modules'' \<and>
   (\<exists>f. valueToFunction (Str ''node_modules'') = Inr f \<and>
        call_matcher f ''node_modules/lodash/get.js'' = Inr True \<and>
        call_matcher f ''src/node_modules'' = Inr False)"
proof -
  have lit: "list_all (\<lambda>c. \<not> syntax_character c) ''node_modules''"
    by (simp add: syntax_character_def)
  from string_matcher_prefix[of "''node_modules''"] lit
  obtain f where f: "valueToFunction (Str ''node_modules'') = Inr f"
    and m: "\<And>c. call_matcher f c = Inr (prefix ''node_modules'' c)"
    by blast
  have p1: "prefix ''node_modules'' ''node_modules/lodash/get.js''" by simp
  have p2: "\<not> prefix ''node_modules'' ''src/node_modules''" by simp
  have m1: "call_matcher f ''node_modules/lodash/get.js'' = Inr True" using m p1 by simp
  have m2: "call_matcher f ''src/node_modules'' = Inr False" using m p2 by simp
  show ?thesis using lit f m1 m2 by blast
qed

section \<open>Properties of the resolution of callables\<close>

lemma asset_use_nonstring: "\<not> isString v \<Longrightarrow> asset_use E r v = Inr v"
  by (cases v) (simp_all add: asset_use_def)

lemma middleware_nonstring: "\<not> isString v \<Longrightarrow> resolveMiddlewareModules E r v = Inr v"
  by (cases v) (simp_all add: resolveMiddlewareModules_def)

lemma middleware_string:
  "resolveMiddlewareModules E r (Str name) =
     (case resolve_sync E name r of
        None \<Rightarrow> Inl (ModuleResolutionError name r)
      | Some file \<Rightarrow> require E file)"
  by (simp add: resolveMiddlewareModules_def requireLocalModule_def)

lemma asset_use_builtin:
  "map_of [(''browserify'', browserify E), (''less'', less E), (''sass'', sass E)] name = Some X \<Longrightarrow>
   truthy X \<Longrightarrow> asset_use E r (Str name) = Inr X"
  by (simp add: asset_use_def assetProcessors_def)

lemma asset_use_other:
  "name \<notin> {''browserify'', ''less'', ''sass''} \<Longrightarrow> map_of object_prototype name = None \<Longrightarrow>
   asset_use E r (Str name) = requireLocalModule E name r"
  by (simp add: asset_use_def assetProcessors_def)

text \<open>
  C7 at a failing input. \<open>toString\<close> is no key of the table of built-in processors, yet
  the \<open>use\<close> of that name is answered from the table's prototype, without any module
  lookup: in a site where no module of the name can be located the resolution succeeds
  where the lookup fails.
\<close>

theorem asset_use_inherited_name:
  "map_of [(''browserify'', browserify E), (''less'', less E), (''sass'', sass E)] ''toString'' = None \<and>
   asset_use E r (Str ''toString'') = Inr (Fun ''Object.prototype.toString'') \<and>
   requireLocalModule bare_env ''toString'' ''/site'' = Inl (ModuleResolutionError ''toString'' ''/site'') \<and>
   asset_use bare_env ''/site'' (Str ''toString'') \<noteq> requireLocalModule bare_env ''toString'' ''/site''"
  by (simp add: asset_use_def assetProcessors_def object_prototype_def object_prototype_methods_def
      requireLocalModule_def bare_env_def site_env_def)

section \<open>Properties of \<open>update\<close>\<close>

lemma root_update: "root (snd (update E c)) = root c"
  by (simp add: update_def split: sum.splits prod.splits)

lemma update_load_failure: "load_validated E (root c) = Inl e \<Longrightarrow> update E c = (Some e, c)"
  by (simp add: update_def)

lemma update_after_load:
  "load_validated E (root c) = Inr merged \<Longrightarrow>
   update E c = (fst (run_steps (normalize_steps E (root c)) merged),
                 c\<lparr>raw := snd (run_steps (normalize_steps E (root c)) merged)\<rparr>)"
  by (simp add: update_def split: prod.splits)

lemma load_validated_invalid:
  "load_config E r = Inr cfg \<Longrightarrow> schema_validate E cfg = (Some err, v) \<Longrightarrow>
   load_validated E r = Inl (ValidationError (ConfigFilename E) (message err))"
  by (simp add: load_validated_def)


lemma update_None_loaded:
  "update E c0 = (None, c) \<Longrightarrow> \<exists>merged. load_validated E (root c0) = Inr merged"
  by (cases "load_validated E (root c0)") (auto simp: update_def)

text \<open>
  C8. When the schema reports an error for the loaded configuration, \<open>update\<close> throws an
  error whose message is the name of the configuration file, \<open>validation error:\<close> and the
  message of the schema's error, and the instance is as it was.
\<close>

theorem validation_error_keeps_config:
  "load_config E (root c) = Inr cfg \<Longrightarrow> schema_validate E cfg = (Some err, v) \<Longrightarrow>
   update E c = (Some (ValidationError (ConfigFilename E) (message err)), c) \<and>
   ValidationError (ConfigFilename E) (message err)
     = Error (ConfigFilename E @ '' validation error: '' @ message err)"
  using update_load_failure[OF load_validated_invalid] by (simp add: ValidationError_def)

theorem validation_error_keeps_config_witness:
  "fst (update site_env (new_Config ''/site'')) = None \<and>
   load_config invalid_env ''/site'' = Inr (Str ''not a tree'') \<and>
   update invalid_env (snd (update site_env (new_Config ''/site''))) =
     (Some (Error ''reptar.config.js validation error: value must be an object''),
      snd (update site_env (new_Config ''/site'')))"
proof -
  let ?c = "snd (update site_env (new_Config ''/site''))"
  have ok: "fst (update site_env (new_Config ''/site'')) = None" by code_simp
  have r: "root ?c = ''/site''" by (simp add: root_update new_Config_def)
  have l: "load_config invalid_env ''/site'' = Inr (Str ''not a tree'')" by code_simp
  have v: "schema_validate invalid_env (Str ''not a tree'') =
      (Some \<lparr>message = ''value must be an object'', annotate = ''value must be an object''\<rparr>,
       Str ''not a tree'')"
    by (simp add: invalid_env_def site_env_def site_validate_def)
  have f: "ConfigFilename invalid_env = ''reptar.config.js''"
    by (simp add: invalid_env_def site_env_def)
  from validation_error_keeps_config[of invalid_env ?c, unfolded r, OF l v]
  have "update invalid_env ?c =
     (Some (Error ''reptar.config.js validation error: value must be an object''), ?c)"
    by (simp add: f)
  with ok l show ?thesis by blast
qed

text \<open>
  C2, as stated, fails: \<open>update\<close> assigns the new tree to \<open>this._raw\<close> before it resolves
  any module. In a site that was updated with the module \<open>reptar-excerpt\<close> installed, an
  \<open>update\<close> after the module is gone throws the resolution error and leaves a tree that
  differs from the one stored before.
\<close>

theorem update_not_atomic_counterexample:
  "fst (update site_env (new_Config ''/site'')) = None \<and>
   fst (update bare_env (snd (update site_env (new_Config ''/site''))))
     = Some (ModuleResolutionError ''reptar-excerpt'' ''/site'') \<and>
   raw (snd (update bare_env (snd (update site_env (new_Config ''/site'')))))
     \<noteq> raw (snd (update site_env (new_Config ''/site'')))"
  by code_simp

text \<open>
  C2, amended. A failure to load the configuration (the file, or the function it exports)
  and a validation error leave the instance as it was. Once the validated tree is
  merged with the defaults it is stored, and what the statements after the assignment
  leave is the stored tree, whether or not one of them threw.
\<close>

theorem update_failure_stages:
  "(load_config E (root c) = Inl e \<longrightarrow> update E c = (Some e, c)) \<and>
   (load_config E (root c) = Inr cfg \<and> schema_validate E cfg = (Some err, v) \<longrightarrow>
      snd (update E c) = c) \<and>
   (load_validated E (root c) = Inr merged \<longrightarrow>
      update E c = (fst (run_steps (normalize_steps E (root c)) merged),
                    c\<lparr>raw := snd (run_steps (normalize_steps E (root c)) merged)\<rparr>))"
proof (intro conjI impI)
  assume "load_config E (root c) = Inl e"
  then have "load_validated E (root c) = Inl e" by (simp add: load_validated_def)
  then show "update E c = (Some e, c)" by (rule update_load_failure)
next
  assume "load_config E (root c) = Inr cfg \<and> schema_validate E cfg = (Some err, v)"
  then have "load_validated E (root c) = Inl (ValidationError (ConfigFilename E) (message err))"
    by (simp add: load_validated_invalid)
  then show "snd (update E c) = c" by (simp add: update_load_failure)
next
  assume "load_validated E (root c) = Inr merged"
  then show "update E c = (fst (run_steps (normalize_steps E (root c)) merged),
                    c\<lparr>raw := snd (run_steps (normalize_steps E (root c)) merged)\<rparr>)"
    by (rule update_after_load)
qed

theorem update_failure_stages_witness:
  "load_config missing_env ''/site'' = Inl (Error ''Cannot find module'') \<and>
   update missing_env (snd (update site_env (new_Config ''/site'')))
     = (Some (Error ''Cannot find module''), snd (update site_env (new_Config ''/site''))) \<and>
   load_config invalid_env ''/site'' = Inr (Str ''not a tree'') \<and>
   snd (update invalid_env (snd (update site_env (new_Config ''/site''))))
     = snd (update site_env (new_Config ''/site'')) \<and>
   \<not> isl (load_validated bare_env ''/site'') \<and>
   raw (snd (update bare_env (snd (update site_env (new_Config ''/site'')))))
     = snd (run_steps (normalize_steps bare_env ''/site'') (projr (load_validated bare_env ''/site'')))"
proof -
  let ?c = "snd (update site_env (new_Config ''/site''))"
  have r: "root ?c = ''/site''" by (simp add: root_update new_Config_def)
  have l1: "load_config missing_env ''/site'' = Inl (Error ''Cannot find module'')" by code_simp
  have l2: "load_config invalid_env ''/site'' = Inr (Str ''not a tree'')" by code_simp
  have v2: "schema_validate invalid_env (Str ''not a tree'') =
      (Some \<lparr>message = ''value must be an object'', annotate = ''value must be an object''\<rparr>,
       Str ''not a tree'')"
    by (simp add: invalid_env_def site_env_def site_validate_def)
  have n3: "\<not> isl (load_validated bare_env ''/site'')" by code_simp
  then have l3: "load_validated bare_env ''/site'' = Inr (projr (load_validated bare_env ''/site''))"
    by simp
  from update_failure_stages[of missing_env ?c "Error ''Cannot find module''", unfolded r] l1
  have a: "update missing_env ?c = (Some (Error ''Cannot find module''), ?c)" by blast
  from update_failure_stages[of invalid_env ?c _ "Str ''not a tree''", unfolded r] l2 v2
  have b: "snd (update invalid_env ?c) = ?c" by blast
  from update_failure_stages[of bare_env ?c _ _ _ _ "projr (load_validated bare_env ''/site'')",
      unfolded r] l3
  have "update bare_env ?c =
      (fst (run_steps (normalize_steps bare_env ''/site'') (projr (load_validated bare_env ''/site''))),
       ?c\<lparr>raw := snd (run_steps (normalize_steps bare_env ''/site'')
                        (projr (load_validated bare_env ''/site'')))\<rparr>)"
    by blast
  then have c: "raw (snd (update bare_env ?c))
     = snd (run_steps (normalize_steps bare_env ''/site'') (projr (load_validated bare_env ''/site'')))"
    by simp
  from l1 a l2 b n3 c show ?thesis by blast
qed

section \<open>Properties of the path set\<close>

lemma proto_config_keys [simp]:
  "map_of object_prototype ''source'' = None"
  "map_of object_prototype ''file'' = None"
  "map_of object_prototype ''defaults'' = None"
  "map_of object_prototype ''ignore'' = None"
  "map_of object_prototype ''middlewares'' = None"
  "map_of object_prototype ''lifecycle'' = None"
  "map_of object_prototype ''assets'' = None"
  by (simp_all add: object_prototype_def object_prototype_methods_def)

lemma proto_not_string: "map_of object_prototype k = Some v \<Longrightarrow> \<not> isString v"
proof -
  assume "map_of object_prototype k = Some v"
  then have "(k, v) \<in> set object_prototype" by (rule map_of_SomeD)
  then show ?thesis
    unfolding object_prototype_def object_prototype_methods_def by auto
qed

lemma js_prop_Obj_Str: "js_prop (Obj kvs) k = Inr (Str s) \<Longrightarrow> map_of kvs k = Some (Str s)"
proof (cases "map_of kvs k")
  case None
  assume a: "js_prop (Obj kvs) k = Inr (Str s)"
  show ?thesis
  proof (cases "map_of object_prototype k")
    case None2: None
    with None a show ?thesis by simp
  next
    case (Some v)
    with None a have "v = Str s" by simp
    with proto_not_string[OF Some] show ?thesis by simp
  qed
next
  case (Some v)
  assume "js_prop (Obj kvs) k = Inr (Str s)"
  with Some show ?thesis by simp
qed

lemma index_of_string_path [simp]: "index_of_string ''path'' = None"
  by (simp add: index_of_string_def)

lemma js_prop_path_Obj:
  "js_prop t ''path'' = Inr (Obj kvs) \<Longrightarrow> \<exists>rkvs. t = Obj rkvs \<and> map_of rkvs ''path'' = Some (Obj kvs)"
  by (cases t) (auto split: option.splits)

lemma path_resolve_last_string: "path_resolve wd [anchor, v] = Inr r \<Longrightarrow> \<exists>s. v = Str s"
  unfolding path_resolve_def by (cases v) (auto split: sum.splits)

lemma js_set_path_entry:
  assumes "js_prop p key = Inr (Str s)" and "js_set p key w = Inr p'"
  shows "\<exists>kvs. p = Obj kvs \<and> map_of kvs key = Some (Str s) \<and> p' = Obj (AList.update key w kvs)"
proof (cases p)
  case (Obj kvs)
  with assms js_prop_Obj_Str[of kvs key s] show ?thesis by auto
qed (use assms in \<open>auto split: if_splits option.splits\<close>)

lemma resolve_entry_Inr:
  assumes "resolve_entry wd anchor key t = Inr t'"
  shows "\<exists>rkvs kvs s r. t = Obj rkvs \<and> map_of rkvs ''path'' = Some (Obj kvs) \<and>
           map_of kvs key = Some (Str s) \<and> path_resolve wd [anchor, Str s] = Inr r \<and>
           t' = Obj (AList.update ''path'' (Obj (AList.update key (Str r) kvs)) rkvs)"
proof -
  from assms obtain p v r where p: "js_prop t ''path'' = Inr p" and v: "js_prop p key = Inr v"
    and r: "path_resolve wd [anchor, v] = Inr r"
    and sn: "set_nested t ''path'' key (Str r) = Inr t'"
    by (auto simp: resolve_entry_def split: sum.splits)
  from path_resolve_last_string[OF r] obtain s where s: "v = Str s" by blast
  from sn p obtain p' where p': "js_set p key (Str r) = Inr p'"
    and t': "js_set t ''path'' p' = Inr t'"
    by (auto simp: set_nested_def split: sum.splits)
  from js_set_path_entry[OF v[unfolded s] p'] obtain kvs where kvs: "p = Obj kvs"
    "map_of kvs key = Some (Str s)" "p' = Obj (AList.update key (Str r) kvs)" by blast
  from js_prop_path_Obj[OF p[unfolded kvs(1)]] obtain rkvs where rk: "t = Obj rkvs"
    "map_of rkvs ''path'' = Some (Obj kvs)" by blast
  from t' rk kvs have "t' = Obj (AList.update ''path'' (Obj (AList.update key (Str r) kvs)) rkvs)"
    by simp
  with rk kvs r s show ?thesis by blast
qed

lemma path_source_Obj:
  "map_of rkvs ''path'' = Some (Obj kvs) \<Longrightarrow>
   path_source (Obj rkvs) = Inr (case map_of kvs ''source'' of Some v \<Rightarrow> v | None \<Rightarrow> Undefined)"
  by (simp add: path_source_def split: option.splits)

lemma path_entry_Obj:
  "map_of rkvs ''path'' = Some (Obj kvs) \<Longrightarrow> path_entry (Obj rkvs) k = map_of kvs k"
  by (simp add: path_entry_def)

lemma resolve_paths_Inr:
  assumes "resolve_paths E keys (Obj rkvs) = (None, t')"
    and "map_of rkvs ''path'' = Some (Obj kvs)" and "distinct keys"
  shows "\<exists>kvs'. t' = Obj (AList.update ''path'' (Obj kvs') rkvs) \<and>
           map_of kvs' SourceKey = map_of kvs SourceKey \<and>
           (\<forall>k. k \<notin> set keys \<longrightarrow> map_of kvs' k = map_of kvs k) \<and>
           (\<forall>k. k \<in> set keys \<longrightarrow> k \<noteq> SourceKey \<longrightarrow>
              (\<exists>s r src. map_of kvs k = Some (Str s) \<and> path_source (Obj rkvs) = Inr src \<and>
                 path_resolve (cwd E) [src, Str s] = Inr r \<and> map_of kvs' k = Some (Str r)))"
  using assms
proof (induction keys arbitrary: rkvs kvs)
  case Nil
  then have "t' = Obj rkvs" by simp
  moreover have "AList.update ''path'' (Obj kvs) rkvs = rkvs"
    using Nil.prems(2) by (simp add: map_of_eq_Some_iff update_Some_unfold AList.update_triv)
  ultimately have "t' = Obj (AList.update ''path'' (Obj kvs) rkvs)" by simp
  then show ?case by (intro exI[of _ kvs]) simp
next
  case (Cons key keys)
  show ?case
  proof (cases "key = SourceKey")
    case True
    with Cons.prems have rp: "resolve_paths E keys (Obj rkvs) = (None, t')" by simp
    from Cons.IH[OF rp Cons.prems(2)] Cons.prems(3) obtain kvs' where
      k: "t' = Obj (AList.update ''path'' (Obj kvs') rkvs)"
         "map_of kvs' SourceKey = map_of kvs SourceKey"
         "\<forall>k. k \<notin> set keys \<longrightarrow> map_of kvs' k = map_of kvs k"
         "\<forall>k. k \<in> set keys \<longrightarrow> k \<noteq> SourceKey \<longrightarrow>
              (\<exists>s r src. map_of kvs k = Some (Str s) \<and> path_source (Obj rkvs) = Inr src \<and>
                 path_resolve (cwd E) [src, Str s] = Inr r \<and> map_of kvs' k = Some (Str r))"
      by auto
    show ?thesis using k True by auto
  next
    case False
    with Cons.prems(1) obtain src t1 where src: "path_source (Obj rkvs) = Inr src"
      and re: "resolve_entry (cwd E) src key (Obj rkvs) = Inr t1"
      and rp: "resolve_paths E keys t1 = (None, t')"
      by (auto split: sum.splits)
    from resolve_entry_Inr[OF re] Cons.prems(2) obtain s r where
      s: "map_of kvs key = Some (Str s)" and r: "path_resolve (cwd E) [src, Str s] = Inr r"
      and t1: "t1 = Obj (AList.update ''path'' (Obj (AList.update key (Str r) kvs)) rkvs)"
      by auto
    let ?kvs1 = "AList.update key (Str r) kvs"
    let ?rkvs1 = "AList.update ''path'' (Obj ?kvs1) rkvs"
    have m1: "map_of ?rkvs1 ''path'' = Some (Obj ?kvs1)" by (simp add: update_conv')
    have d: "distinct keys" and nk: "key \<notin> set keys" using Cons.prems(3) by simp_all
    from Cons.IH[OF rp[unfolded t1] m1 d] obtain kvs' where
      k: "t' = Obj (AList.update ''path'' (Obj kvs') ?rkvs1)"
         "map_of kvs' SourceKey = map_of ?kvs1 SourceKey"
         "\<forall>k. k \<notin> set keys \<longrightarrow> map_of kvs' k = map_of ?kvs1 k"
         "\<forall>k. k \<in> set keys \<longrightarrow> k \<noteq> SourceKey \<longrightarrow>
              (\<exists>s r src. map_of ?kvs1 k = Some (Str s) \<and> path_source (Obj ?rkvs1) = Inr src \<and>
                 path_resolve (cwd E) [src, Str s] = Inr r \<and> map_of kvs' k = Some (Str r))"
      by auto
    have src1: "path_source (Obj ?rkvs1) = path_source (Obj rkvs)"
      using False by (simp add: path_source_Obj[OF m1] path_source_Obj[OF Cons.prems(2)] update_conv' SourceKey_def)
    have c1: "t' = Obj (AList.update ''path'' (Obj kvs') rkvs)"
      using k(1) by (simp add: AList.update_last)
    have c2: "map_of kvs' SourceKey = map_of kvs SourceKey"
      using k(2) False by (simp add: update_conv')
    have c3: "\<forall>k. k \<notin> set (key # keys) \<longrightarrow> map_of kvs' k = map_of kvs k"
      using k(3) by (simp add: update_conv')
    have c4: "\<exists>s r src. map_of kvs k = Some (Str s) \<and> path_source (Obj rkvs) = Inr src \<and>
                 path_resolve (cwd E) [src, Str s] = Inr r \<and> map_of kvs' k = Some (Str r)"
      if "k \<in> set (key # keys)" "k \<noteq> SourceKey" for k
    proof (cases "k = key")
      case True
      have "map_of kvs' key = Some (Str r)" using k(3) nk by (simp add: update_conv')
      with s r src True show ?thesis by blast
    next
      case False
      with that have "k \<in> set keys" by simp
      with k(4) that(2) obtain s' r' src' where
        a: "map_of ?kvs1 k = Some (Str s')" and b: "path_source (Obj ?rkvs1) = Inr src'"
        and c: "path_resolve (cwd E) [src', Str s'] = Inr r'" and d': "map_of kvs' k = Some (Str r')"
        by blast
      from a False have "map_of kvs k = Some (Str s')" by (simp add: update_conv')
      moreover from b src1 have "path_source (Obj rkvs) = Inr src'" by simp
      ultimately show ?thesis using c d' by blast
    qed
    from c1 c2 c3 c4 show ?thesis by blast
  qed
qed

lemma set_js_keys: "k \<in> set (js_keys kvs) \<longleftrightarrow> map_of kvs k \<noteq> None"
  by (simp add: js_keys_def map_of_eq_None_iff)

lemma each_path_Inr:
  assumes "each_path E t = (None, t')"
  shows "\<exists>rkvs kvs kvs'. t = Obj rkvs \<and> map_of rkvs ''path'' = Some (Obj kvs) \<and>
           t' = Obj (AList.update ''path'' (Obj kvs') rkvs) \<and>
           map_of kvs' SourceKey = map_of kvs SourceKey \<and>
           (\<forall>k. map_of kvs k = None \<longrightarrow> map_of kvs' k = None) \<and>
           (\<forall>k v. map_of kvs k = Some v \<longrightarrow> k \<noteq> SourceKey \<longrightarrow>
              (\<exists>s r src. v = Str s \<and> path_source t = Inr src \<and>
                 path_resolve (cwd E) [src, Str s] = Inr r \<and> map_of kvs' k = Some (Str r)))"
proof -
  from assms obtain kvs where p: "js_prop t ''path'' = Inr (Obj kvs)"
    and rp: "resolve_paths E (js_keys kvs) t = (None, t')"
    by (auto simp: each_path_def split: sum.splits jsval.splits if_splits)
  from js_prop_path_Obj[OF p] obtain rkvs where t: "t = Obj rkvs"
    and m: "map_of rkvs ''path'' = Some (Obj kvs)" by blast
  have d: "distinct (js_keys kvs)" by (simp add: js_keys_def)
  from resolve_paths_Inr[OF rp[unfolded t] m d] obtain kvs' where
    k: "t' = Obj (AList.update ''path'' (Obj kvs') rkvs)"
       "map_of kvs' SourceKey = map_of kvs SourceKey"
       "\<forall>k. k \<notin> set (js_keys kvs) \<longrightarrow> map_of kvs' k = map_of kvs k"
       "\<forall>k. k \<in> set (js_keys kvs) \<longrightarrow> k \<noteq> SourceKey \<longrightarrow>
              (\<exists>s r src. map_of kvs k = Some (Str s) \<and> path_source (Obj rkvs) = Inr src \<and>
                 path_resolve (cwd E) [src, Str s] = Inr r \<and> map_of kvs' k = Some (Str r))"
    by blast
  have a: "\<forall>k. map_of kvs k = None \<longrightarrow> map_of kvs' k = None"
    using k(3) by (simp add: set_js_keys)
  have b: "\<exists>s r src. v = Str s \<and> path_source t = Inr src \<and>
                 path_resolve (cwd E) [src, Str s] = Inr r \<and> map_of kvs' k = Some (Str r)"
    if "map_of kvs k = Some v" "k \<noteq> SourceKey" for k v
  proof -
    from that have "k \<in> set (js_keys kvs)" by (simp add: set_js_keys)
    with k(4) that(2) obtain s r src where "map_of kvs k = Some (Str s)"
      "path_source (Obj rkvs) = Inr src" "path_resolve (cwd E) [src, Str s] = Inr r"
      "map_of kvs' k = Some (Str r)" by blast
    with that(1) t show ?thesis by auto
  qed
  from t m k(1) k(2) a b show ?thesis by blast
qed

lemma js_set_keeps_path:
  "js_set t k v = Inr t' \<Longrightarrow> k \<noteq> ''path'' \<Longrightarrow> js_prop t' ''path'' = js_prop t ''path''"
  by (cases t) (auto simp: update_conv')

lemma set_nested_keeps_path:
  "set_nested t k1 k2 v = Inr t' \<Longrightarrow> k1 \<noteq> ''path'' \<Longrightarrow> js_prop t' ''path'' = js_prop t ''path''"
  by (auto simp: set_nested_def split: sum.splits dest: js_set_keeps_path)

lemma sort_defaults_keeps_path:
  "sort_defaults E t = Inr t' \<Longrightarrow> js_prop t' ''path'' = js_prop t ''path''"
  by (auto simp: sort_defaults_def split: sum.splits dest: set_nested_keeps_path)

lemma ignore_step_keeps_path:
  "ignore_step t = Inr t' \<Longrightarrow> js_prop t' ''path'' = js_prop t ''path''"
  by (auto simp: ignore_step_def split: sum.splits dest: js_set_keeps_path)

lemma middlewares_step_keeps_path:
  "middlewares_step E r t = Inr t' \<Longrightarrow> js_prop t' ''path'' = js_prop t ''path''"
  by (auto simp: middlewares_step_def split: sum.splits dest: js_set_keeps_path)

lemma assets_step_keeps_path:
  "assets_step E r t = Inr t' \<Longrightarrow> js_prop t' ''path'' = js_prop t ''path''"
  by (auto simp: assets_step_def split: sum.splits dest: js_set_keeps_path)

lemma lifecycle_keys_keeps_path:
  "lifecycle_keys E r keys t = (None, t') \<Longrightarrow> js_prop t' ''path'' = js_prop t ''path''"
proof (induction keys arbitrary: t)
  case Nil then show ?case by simp
next
  case (Cons key keys)
  from Cons.prems obtain ms t1 where sn: "set_nested t ''lifecycle'' key (Arr ms) = Inr t1"
    and rest: "lifecycle_keys E r keys t1 = (None, t')"
    by (auto split: sum.splits)
  from set_nested_keeps_path[OF sn] Cons.IH[OF rest] show ?case by simp
qed

lemma lifecycle_step_keeps_path:
  "lifecycle_step E r t = (None, t') \<Longrightarrow> js_prop t' ''path'' = js_prop t ''path''"
  by (auto simp: lifecycle_step_def split: sum.splits jsval.splits if_splits
      dest: lifecycle_keys_keeps_path)

lemma atomic_None: "atomic f t = (None, t') \<longleftrightarrow> f t = Inr t'"
  by (auto simp: atomic_def split: sum.splits)

lemma run_steps_Cons_None:
  "run_steps (f # fs) t = (None, t') \<Longrightarrow> \<exists>t1. f t = (None, t1) \<and> run_steps fs t1 = (None, t')"
  by (auto split: prod.splits option.splits)

lemma normalize_steps_None:
  assumes "run_steps (normalize_steps E r) t = (None, t')"
  shows "\<exists>t1 t2. resolve_source E r t = Inr t1 \<and> each_path E t1 = (None, t2) \<and>
           js_prop t' ''path'' = js_prop t2 ''path''"
proof -
  note rs = assms[unfolded normalize_steps_def]
  from run_steps_Cons_None[OF rs] obtain t1 where
    a1: "atomic (resolve_source E r) t = (None, t1)"
    and r1: "run_steps [each_path E, atomic (sort_defaults E), atomic ignore_step,
      atomic (middlewares_step E r), lifecycle_step E r, atomic (assets_step E r)] t1 = (None, t')"
    by blast
  from run_steps_Cons_None[OF r1] obtain t2 where
    s2: "each_path E t1 = (None, t2)"
    and r2: "run_steps [atomic (sort_defaults E), atomic ignore_step,
      atomic (middlewares_step E r), lifecycle_step E r, atomic (assets_step E r)] t2 = (None, t')"
    by blast
  from run_steps_Cons_None[OF r2] obtain t3 where
    a3: "atomic (sort_defaults E) t2 = (None, t3)"
    and r3: "run_steps [atomic ignore_step, atomic (middlewares_step E r), lifecycle_step E r,
      atomic (assets_step E r)] t3 = (None, t')"
    by blast
  from run_steps_Cons_None[OF r3] obtain t4 where
    a4: "atomic ignore_step t3 = (None, t4)"
    and r4: "run_steps [atomic (middlewares_step E r), lifecycle_step E r,
      atomic (assets_step E r)] t4 = (None, t')"
    by blast
  from run_steps_Cons_None[OF r4] obtain t5 where
    a5: "atomic (middlewares_step E r) t4 = (None, t5)"
    and r5: "run_steps [lifecycle_step E r, atomic (assets_step E r)] t5 = (None, t')"
    by blast
  from run_steps_Cons_None[OF r5] obtain t6 where
    s6: "lifecycle_step E r t5 = (None, t6)"
    and r6: "run_steps [atomic (assets_step E r)] t6 = (None, t')"
    by blast
  from run_steps_Cons_None[OF r6] have a7: "atomic (assets_step E r) t6 = (None, t')"
    by auto
  from a1 have s1: "resolve_source E r t = Inr t1" by (simp add: atomic_None)
  from a3 have s3: "sort_defaults E t2 = Inr t3" by (simp add: atomic_None)
  from a4 have s4: "ignore_step t3 = Inr t4" by (simp add: atomic_None)
  from a5 have s5: "middlewares_step E r t4 = Inr t5" by (simp add: atomic_None)
  from a7 have s7: "assets_step E r t6 = Inr t'" by (simp add: atomic_None)
  from sort_defaults_keeps_path[OF s3] ignore_step_keeps_path[OF s4]
    middlewares_step_keeps_path[OF s5] lifecycle_step_keeps_path[OF s6]
    assets_step_keeps_path[OF s7]
  have "js_prop t' ''path'' = js_prop t2 ''path''" by simp
  with s1 s2 show ?thesis by blast
qed

lemma resolve_args_absolute:
  "isAbsolute wd \<Longrightarrow> resolve_args wd args acc = Inr (p, b) \<Longrightarrow> b"
  by (induction wd args acc rule: resolve_args.induct) (auto simp: isAbsolute_def split: if_splits)

lemma path_resolve_absolute:
  "isAbsolute wd \<Longrightarrow> path_resolve wd args = Inr r \<Longrightarrow> isAbsolute r"
  by (auto simp: path_resolve_def isAbsolute_def Let_def split: sum.splits prod.splits if_splits
      dest: resolve_args_absolute[unfolded isAbsolute_def])

lemma path_entry_cong: "js_prop t' ''path'' = js_prop t ''path'' \<Longrightarrow> path_entry t' k = path_entry t k"
  by (simp add: path_entry_def)

lemma update_success:
  assumes "update E c = (None, c')" and "load_validated E (root c) = Inr merged"
  shows "run_steps (normalize_steps E (root c)) merged = (None, raw c')"
proof -
  from update_after_load[OF assms(2)] assms(1)
  have "fst (run_steps (normalize_steps E (root c)) merged) = None"
    and "c' = c\<lparr>raw := snd (run_steps (normalize_steps E (root c)) merged)\<rparr>" by simp_all
  then show ?thesis by (simp add: prod_eq_iff)
qed

lemma paths_after_steps:
  assumes rs: "run_steps (normalize_steps E r) merged = (None, t')"
  shows "\<exists>src. (\<exists>s. path_entry merged SourceKey = Some (Str s) \<and>
                 path_resolve (cwd E) [Str r, Str s] = Inr src) \<and>
           path_entry t' SourceKey = Some (Str src) \<and>
           (\<forall>k v. k \<noteq> SourceKey \<longrightarrow> path_entry merged k = Some v \<longrightarrow>
              (\<exists>s p. v = Str s \<and> path_resolve (cwd E) [Str src, Str s] = Inr p \<and>
                     path_entry t' k = Some (Str p))) \<and>
           (\<forall>k. path_entry merged k = None \<longrightarrow> path_entry t' k = None)"
proof -
  from normalize_steps_None[OF rs] obtain t1 t2 where
    s1: "resolve_source E r merged = Inr t1" and s2: "each_path E t1 = (None, t2)"
    and keep: "js_prop t' ''path'' = js_prop t2 ''path''" by blast
  from resolve_entry_Inr[OF s1[unfolded resolve_source_def]] obtain rkvs kvs s src where
    m: "merged = Obj rkvs" and mp: "map_of rkvs ''path'' = Some (Obj kvs)"
    and ms: "map_of kvs SourceKey = Some (Str s)"
    and rsrc: "path_resolve (cwd E) [Str r, Str s] = Inr src"
    and t1: "t1 = Obj (AList.update ''path'' (Obj (AList.update SourceKey (Str src) kvs)) rkvs)"
    by blast
  let ?kvs1 = "AList.update SourceKey (Str src) kvs"
  let ?rkvs1 = "AList.update ''path'' (Obj ?kvs1) rkvs"
  have mp1: "map_of ?rkvs1 ''path'' = Some (Obj ?kvs1)" by (simp add: update_conv')
  from each_path_Inr[OF s2] obtain rk kv kvs2 where
    e1: "t1 = Obj rk" and e2: "map_of rk ''path'' = Some (Obj kv)"
    and e3: "t2 = Obj (AList.update ''path'' (Obj kvs2) rk)"
    and e4: "map_of kvs2 SourceKey = map_of kv SourceKey"
    and e5: "\<forall>k. map_of kv k = None \<longrightarrow> map_of kvs2 k = None"
    and e6: "\<forall>k v. map_of kv k = Some v \<longrightarrow> k \<noteq> SourceKey \<longrightarrow>
              (\<exists>s r src. v = Str s \<and> path_source t1 = Inr src \<and>
                 path_resolve (cwd E) [src, Str s] = Inr r \<and> map_of kvs2 k = Some (Str r))"
    by blast
  from e1 t1 have rk: "rk = ?rkvs1" by simp
  with e2 mp1 have kv: "kv = ?kvs1" by simp
  have ps: "path_source t1 = Inr (Str src)"
    using path_source_Obj[OF mp1] unfolding t1 by (simp add: update_conv' SourceKey_def)
  have pe_m: "path_entry merged k = map_of kvs k" for k
    unfolding m by (rule path_entry_Obj[OF mp])
  have "map_of (AList.update ''path'' (Obj kvs2) rk) ''path'' = Some (Obj kvs2)"
    by (simp add: update_conv')
  then have "path_entry t2 k = map_of kvs2 k" for k
    unfolding e3 by (rule path_entry_Obj)
  then have pe_t: "path_entry t' k = map_of kvs2 k" for k
    using path_entry_cong[OF keep] by simp
  have c1: "path_entry t' SourceKey = Some (Str src)"
    using e4 kv by (simp add: pe_t update_conv')
  have c2: "\<exists>s p. v = Str s \<and> path_resolve (cwd E) [Str src, Str s] = Inr p \<and>
                     path_entry t' k = Some (Str p)"
    if "k \<noteq> SourceKey" "path_entry merged k = Some v" for k v
  proof -
    from that have "map_of kv k = Some v" by (simp add: pe_m kv update_conv')
    with e6 that(1) obtain s' p src' where "v = Str s'" "path_source t1 = Inr src'"
      "path_resolve (cwd E) [src', Str s'] = Inr p" "map_of kvs2 k = Some (Str p)" by blast
    with ps show ?thesis by (auto simp: pe_t)
  qed
  have c3: "path_entry t' k = None" if "path_entry merged k = None" for k
  proof -
    from that ms have "k \<noteq> SourceKey" by (auto simp: pe_m)
    with that have "map_of kv k = None" by (simp add: pe_m kv update_conv')
    with e5 show ?thesis by (simp add: pe_t)
  qed
  from ms rsrc c1 c2 c3 show ?thesis unfolding pe_m[symmetric] by blast
qed

text \<open>
  C5. After a successful \<open>update\<close> the stored source is the source of the validated tree
  resolved against the root of the instance; every other entry of the path set is its
  value in the validated tree resolved against the stored source; no entry is added or
  lost; and, the working directory of the process being absolute, every entry is an
  absolute path.
\<close>

theorem paths_resolved:
  assumes "update E c = (None, c')" and "load_validated E (root c) = Inr merged"
  shows "\<exists>src. (\<exists>s. path_entry merged SourceKey = Some (Str s) \<and>
                 path_resolve (cwd E) [Str (root c), Str s] = Inr src) \<and>
           path_entry (raw c') SourceKey = Some (Str src) \<and>
           (\<forall>k v. k \<noteq> SourceKey \<longrightarrow> path_entry merged k = Some v \<longrightarrow>
              (\<exists>s p. v = Str s \<and> path_resolve (cwd E) [Str src, Str s] = Inr p \<and>
                     path_entry (raw c') k = Some (Str p))) \<and>
           (\<forall>k. path_entry merged k = None \<longrightarrow> path_entry (raw c') k = None) \<and>
           (isAbsolute (cwd E) \<longrightarrow>
              (\<forall>k v. path_entry (raw c') k = Some v \<longrightarrow> (\<exists>p. v = Str p \<and> isAbsolute p)))"
proof -
  from paths_after_steps[OF update_success[OF assms]] obtain src s where
    a: "path_entry merged SourceKey = Some (Str s)"
    and b: "path_resolve (cwd E) [Str (root c), Str s] = Inr src"
    and c: "path_entry (raw c') SourceKey = Some (Str src)"
    and d: "\<forall>k v. k \<noteq> SourceKey \<longrightarrow> path_entry merged k = Some v \<longrightarrow>
              (\<exists>s p. v = Str s \<and> path_resolve (cwd E) [Str src, Str s] = Inr p \<and>
                     path_entry (raw c') k = Some (Str p))"
    and e: "\<forall>k. path_entry merged k = None \<longrightarrow> path_entry (raw c') k = None"
    by blast
  have f: "\<exists>p. v = Str p \<and> isAbsolute p"
    if abs: "isAbsolute (cwd E)" and pe: "path_entry (raw c') k = Some v" for k v
  proof (cases "k = SourceKey")
    case True
    with pe c have "v = Str src" by simp
    with path_resolve_absolute[OF abs b] show ?thesis by simp
  next
    case False
    from pe e obtain w where w: "path_entry merged k = Some w" by (cases "path_entry merged k") auto
    with d False obtain s' p where "path_resolve (cwd E) [Str src, Str s'] = Inr p"
      "path_entry (raw c') k = Some (Str p)" by blast
    with pe path_resolve_absolute[OF abs] show ?thesis by auto
  qed
  from a b c d e f show ?thesis by blast
qed

theorem paths_resolved_witness:
  "update site_env (new_Config ''/site'') = (None, snd (update site_env (new_Config ''/site''))) \<and>
   path_entry (projr (load_validated site_env ''/site'')) ''source'' = Some (Str ''./'') \<and>
   path_entry (projr (load_validated site_env ''/site'')) ''destination'' = Some (Str ''./_site'') \<and>
   isAbsolute (cwd site_env) \<and>
   path_entry (raw (snd (update site_env (new_Config ''/site'')))) ''source'' = Some (Str ''/site'') \<and>
   path_entry (raw (snd (update site_env (new_Config ''/site'')))) ''destination''
     = Some (Str ''/site/_site'') \<and>
   isAbsolute ''/site/_site''"
proof -
  let ?c = "new_Config ''/site''"
  let ?c' = "snd (update site_env ?c)"
  let ?m = "projr (load_validated site_env ''/site'')"
  have "fst (update site_env ?c) = None" by code_simp
  then have u: "update site_env ?c = (None, ?c')" by (simp add: prod_eq_iff)
  have "\<not> isl (load_validated site_env ''/site'')" by code_simp
  then have lv: "load_validated site_env (root ?c) = Inr ?m" by (simp add: new_Config_def)
  have s: "path_entry ?m ''source'' = Some (Str ''./'')" by code_simp
  have d: "path_entry ?m ''destination'' = Some (Str ''./_site'')" by code_simp
  have ab: "isAbsolute (cwd site_env)" by code_simp
  have r1: "path_resolve (cwd site_env) [Str (root ?c), Str ''./''] = Inr ''/site''" by code_simp
  have r2: "path_resolve (cwd site_env) [Str ''/site'', Str ''./_site''] = Inr ''/site/_site''"
    by code_simp
  have ne: "''destination'' \<noteq> SourceKey" by (simp add: SourceKey_def)
  from paths_resolved[OF u lv] obtain src where
    a: "\<exists>s. path_entry ?m SourceKey = Some (Str s) \<and>
          path_resolve (cwd site_env) [Str (root ?c), Str s] = Inr src"
    and b: "path_entry (raw ?c') SourceKey = Some (Str src)"
    and c: "\<forall>k v. k \<noteq> SourceKey \<longrightarrow> path_entry ?m k = Some v \<longrightarrow>
              (\<exists>s p. v = Str s \<and> path_resolve (cwd site_env) [Str src, Str s] = Inr p \<and>
                     path_entry (raw ?c') k = Some (Str p))"
    by blast
  from a s r1 have src: "src = ''/site''" by (auto simp: SourceKey_def)
  from b src have e1: "path_entry (raw ?c') ''source'' = Some (Str ''/site'')"
    by (simp add: SourceKey_def)
  from c ne d obtain s' p where "Str ''./_site'' = Str s'"
    "path_resolve (cwd site_env) [Str src, Str s'] = Inr p"
    "path_entry (raw ?c') ''destination'' = Some (Str p)" by blast
  with src r2 have e2: "path_entry (raw ?c') ''destination'' = Some (Str ''/site/_site'')" by simp
  have e3: "isAbsolute ''/site/_site''" by code_simp
  from u s d ab e1 e2 e3 show ?thesis by blast
qed

section \<open>Properties of \<open>get\<close>\<close>

lemma get_path:
  "lodash_get (raw c) p Undefined = Inr v \<Longrightarrow>
   get c (Some p) = (if isNullish v then Inl (ConfigPathNotFound p) else Inr v)"
  by (simp add: get_def)



lemma split_nope: "split_on CHR ''.'' ''nope.nope'' = [''nope'', ''nope'']"
  by simp

lemma split_path_source: "split_on CHR ''.'' ''path.source'' = [''path'', ''source'']"
  by simp

lemma get_nope:
  assumes "js_prop (raw c) ''nope'' = Inr Undefined" and "\<not> has_own (raw c) ''nope.nope''"
  shows "get c (Some ''nope.nope'') = Inl (ConfigPathNotFound ''nope.nope'')"
proof -
  have cp: "castPath (raw c) ''nope.nope'' = Inr [''nope'', ''nope'']"
    using assms(2) by (simp add: castPath_def)
  have nn: "\<not> isNullish (raw c)" using assms(1) by (cases "raw c") auto
  have "baseGet (raw c) [''nope'', ''nope''] = Inr Undefined"
    using assms(1) nn by simp
  with cp have "lodash_get (raw c) ''nope.nope'' Undefined = Inr Undefined"
    by (simp add: lodash_get_def)
  from get_path[OF this] show ?thesis by simp
qed

lemma path_entry_SomeD:
  "path_entry t k = Some v \<Longrightarrow> \<exists>kvs. js_prop t ''path'' = Inr (Obj kvs) \<and> map_of kvs k = Some v"
  by (auto simp: path_entry_def split: sum.splits jsval.splits)

lemma get_path_source:
  assumes upd: "update E c0 = (None, c)" and ab: "isAbsolute (cwd E)"
    and lit: "\<not> has_own (raw c) ''path.source''"
  shows "\<exists>p. get c (Some ''path.source'') = Inr (Str p) \<and> isAbsolute p"
proof -
  from update_None_loaded[OF upd] obtain merged where lv: "load_validated E (root c0) = Inr merged"
    by blast
  from paths_after_steps[OF update_success[OF upd lv]] obtain src s where
    r: "path_resolve (cwd E) [Str (root c0), Str s] = Inr src"
    and e: "path_entry (raw c) SourceKey = Some (Str src)" by blast
  from path_entry_SomeD[OF e] obtain kvs where p: "js_prop (raw c) ''path'' = Inr (Obj kvs)"
    and m: "map_of kvs ''source'' = Some (Str src)" by (auto simp: SourceKey_def)
  have cp: "castPath (raw c) ''path.source'' = Inr [''path'', ''source'']"
    using lit by (simp add: castPath_def)
  have nn: "\<not> isNullish (raw c)" using p by (cases "raw c") auto
  have "baseGet (raw c) [''path'', ''source''] = Inr (Str src)"
    using p m nn by simp
  with cp have "lodash_get (raw c) ''path.source'' Undefined = Inr (Str src)"
    by (simp add: lodash_get_def)
  from get_path[OF this] have "get c (Some ''path.source'') = Inr (Str src)" by simp
  with path_resolve_absolute[OF ab r] show ?thesis by blast
qed

text \<open>
  C6. \<open>get()\<close> returns the whole stored tree. \<open>get(p)\<close> returns what the lookup of \<open>p\<close>
  finds, and throws the path error when the lookup finds nothing. In a tree without a
  property \<open>nope\<close>, \<open>get('nope.nope')\<close> throws that error; after a successful \<open>update\<close>,
  \<open>get('path.source')\<close> is an absolute path (the tree having no property that is itself
  named \<open>path.source\<close>, and the working directory being absolute).
\<close>

theorem get_results:
  "get c None = Inr (raw c) \<and>
   (lodash_get (raw c) p Undefined = Inr v \<and> \<not> isNullish v \<longrightarrow> get c (Some p) = Inr v) \<and>
   (lodash_get (raw c) p Undefined = Inr Undefined \<longrightarrow> get c (Some p) = Inl (ConfigPathNotFound p)) \<and>
   (js_prop (raw c) ''nope'' = Inr Undefined \<and> \<not> has_own (raw c) ''nope.nope'' \<longrightarrow>
      get c (Some ''nope.nope'') = Inl (ConfigPathNotFound ''nope.nope'')) \<and>
   (update E c0 = (None, c) \<and> isAbsolute (cwd E) \<and> \<not> has_own (raw c) ''path.source'' \<longrightarrow>
      (\<exists>a. get c (Some ''path.source'') = Inr (Str a) \<and> isAbsolute a))"
proof (intro conjI impI)
  show "get c None = Inr (raw c)" by (simp add: get_def)
next
  assume "lodash_get (raw c) p Undefined = Inr v \<and> \<not> isNullish v"
  then show "get c (Some p) = Inr v" by (simp add: get_path)
next
  assume "lodash_get (raw c) p Undefined = Inr Undefined"
  then show "get c (Some p) = Inl (ConfigPathNotFound p)" by (simp add: get_path)
next
  assume "js_prop (raw c) ''nope'' = Inr Undefined \<and> \<not> has_own (raw c) ''nope.nope''"
  then show "get c (Some ''nope.nope'') = Inl (ConfigPathNotFound ''nope.nope'')"
    by (simp add: get_nope)
next
  assume h: "update E c0 = (None, c) \<and> isAbsolute (cwd E) \<and> \<not> has_own (raw c) ''path.source''"
  from h have h1: "update E c0 = (None, c)" by (rule conjunct1)
  from h have h2: "isAbsolute (cwd E)" by (rule conjunct1[OF conjunct2])
  from h have h3: "\<not> has_own (raw c) ''path.source''" by (rule conjunct2[OF conjunct2])
  show "\<exists>a. get c (Some ''path.source'') = Inr (Str a) \<and> isAbsolute a"
    by (rule get_path_source[OF h1 h2 h3])
qed

theorem get_results_witness:
  "update site_env (new_Config ''/site'') = (None, snd (update site_env (new_Config ''/site''))) \<and>
   isAbsolute (cwd site_env) \<and>
   \<not> has_own (raw (snd (update site_env (new_Config ''/site'')))) ''path.source'' \<and>
   js_prop (raw (snd (update site_env (new_Config ''/site'')))) ''nope'' = Inr Undefined \<and>
   \<not> has_own (raw (snd (update site_env (new_Config ''/site'')))) ''nope.nope'' \<and>
   get (snd (update site_env (new_Config ''/site''))) (Some ''nope.nope'')
     = Inl (ConfigPathNotFound ''nope.nope'') \<and>
   (\<exists>a. get (snd (update site_env (new_Config ''/site''))) (Some ''path.source'') = Inr (Str a)
        \<and> isAbsolute a) \<and>
   lodash_get (raw (snd (update site_env (new_Config ''/site'')))) ''server.port'' Undefined
     = Inr (Num 8080) \<and>
   get (snd (update site_env (new_Config ''/site''))) (Some ''server.port'') = Inr (Num 8080)"
proof -
  let ?init = "new_Config ''/site''"
  let ?c = "snd (update site_env ?init)"
  have "fst (update site_env ?init) = None" by code_simp
  then have u: "update site_env ?init = (None, ?c)" by (simp add: prod_eq_iff)
  have ab: "isAbsolute (cwd site_env)" by code_simp
  have n1: "\<not> has_own (raw ?c) ''path.source''" by code_simp
  have n2: "js_prop (raw ?c) ''nope'' = Inr Undefined" by code_simp
  have n3: "\<not> has_own (raw ?c) ''nope.nope''" by code_simp
  have p: "lodash_get (raw ?c) ''server.port'' Undefined = Inr (Num 8080)" by code_simp
  note T = get_results[of ?c "''server.port''" "Num 8080" site_env ?init]
  from T n2 n3 have a: "get ?c (Some ''nope.nope'') = Inl (ConfigPathNotFound ''nope.nope'')"
    by blast
  from T u ab n1 have b: "\<exists>a. get ?c (Some ''path.source'') = Inr (Str a) \<and> isAbsolute a"
    by blast
  have "\<not> isNullish (Num 8080)" by simp
  with T p have c: "get ?c (Some ''server.port'') = Inr (Num 8080)" by blast
  from u ab n1 n2 n3 a b p c show ?thesis by blast
qed



section \<open>Properties of the renderer\<close>

lemma render_without_pre:
  "\<not> given eb \<Longrightarrow> renderFileWithPlugins P file d eb ea w = renderFileWithPlugins P file d None ea w"
  by (cases eb) (auto simp: renderFileWithPlugins_def)

lemma render_with_pre:
  "b \<noteq> [] \<Longrightarrow> processEventHandlers P b [file] (store w) = (Inr pre, s0) \<Longrightarrow>
   renderFileWithPlugins P file d (Some b) ea w =
   renderFileWithPlugins P file d None ea \<lparr>store = s0, trace = trace w @ [Dispatch b [file]]\<rparr>"
  by (simp add: renderFileWithPlugins_def dispatch_def)

lemma render_without_post:
  "file_render P a d (store w) = (Inr rf, s1) \<Longrightarrow> \<not> given ea \<Longrightarrow>
   renderFileWithPlugins P (RRef a) d None ea w =
   (Inr (RRef a, rf), \<lparr>store = s1, trace = trace w @ [Render a d]\<rparr>)"
  by (cases ea) (auto simp: renderFileWithPlugins_def call_render_def)

lemma render_with_post:
  "file_render P a d (store w) = (Inr rf, s1) \<Longrightarrow> n \<noteq> [] \<Longrightarrow>
   processEventHandlers P n [RRef a, rf] s1 = (Inr res, s2) \<Longrightarrow>
   renderFileWithPlugins P (RRef a) d None (Some n) w =
   (Inr (element res 0, element res 1),
    \<lparr>store = s2, trace = trace w @ [Render a d, Dispatch n [RRef a, rf]]\<rparr>)"
  by (simp add: renderFileWithPlugins_def call_render_def dispatch_def)

lemma render_throws:
  "file_render P a d (store w) = (Inl e, s1) \<Longrightarrow>
   renderFileWithPlugins P (RRef a) d None ea w =
   (Inl e, \<lparr>store = s1, trace = trace w @ [Render a d]\<rparr>)"
  by (simp add: renderFileWithPlugins_def call_render_def)

lemma render_pre_rejects:
  "b \<noteq> [] \<Longrightarrow> processEventHandlers P b [file] (store w) = (Inl e, s0) \<Longrightarrow>
   renderFileWithPlugins P file d (Some b) ea w =
   (Inl e, \<lparr>store = s0, trace = trace w @ [Dispatch b [file]]\<rparr>)"
  by (simp add: renderFileWithPlugins_def dispatch_def)

lemma render_post_rejects:
  "file_render P a d (store w) = (Inr rf, s1) \<Longrightarrow> n \<noteq> [] \<Longrightarrow>
   processEventHandlers P n [RRef a, rf] s1 = (Inl e, s2) \<Longrightarrow>
   renderFileWithPlugins P (RRef a) d None (Some n) w =
   (Inl e, \<lparr>store = s2, trace = trace w @ [Render a d, Dispatch n [RRef a, rf]]\<rparr>)"
  by (simp add: renderFileWithPlugins_def call_render_def dispatch_def)

text \<open>
  C4. \<open>renderFileWithPlugins\<close> runs without any dispatch before \<open>render\<close> when
  \<open>eventBefore\<close> is not given. When it is given, the handlers are dispatched on the file,
  what they resolve to is dropped, and the run goes on with the same file in the store
  they left. \<open>render\<close> is then called on the file. Without \<open>eventAfter\<close> the result is the
  file and the rendered file; with it, the handlers are dispatched on both, and the first
  two elements of what they resolve to are the result.
\<close>

theorem render_phases:
  "(\<not> given eb \<longrightarrow>
      renderFileWithPlugins P file d eb ea w = renderFileWithPlugins P file d None ea w) \<and>
   (b \<noteq> [] \<and> processEventHandlers P b [file] (store w) = (Inr pre, s0) \<longrightarrow>
      renderFileWithPlugins P file d (Some b) ea w =
      renderFileWithPlugins P file d None ea \<lparr>store = s0, trace = trace w @ [Dispatch b [file]]\<rparr>) \<and>
   (file_render P a d (store w) = (Inr rf, s1) \<and> \<not> given ea \<longrightarrow>
      renderFileWithPlugins P (RRef a) d None ea w =
      (Inr (RRef a, rf), \<lparr>store = s1, trace = trace w @ [Render a d]\<rparr>)) \<and>
   (file_render P a d (store w) = (Inr rf, s1) \<and> n \<noteq> [] \<and>
    processEventHandlers P n [RRef a, rf] s1 = (Inr res, s2) \<longrightarrow>
      renderFileWithPlugins P (RRef a) d None (Some n) w =
      (Inr (element res 0, element res 1),
       \<lparr>store = s2, trace = trace w @ [Render a d, Dispatch n [RRef a, rf]]\<rparr>))"
proof (intro conjI impI)
  assume "\<not> given eb"
  then show "renderFileWithPlugins P file d eb ea w = renderFileWithPlugins P file d None ea w"
    by (rule render_without_pre)
next
  assume "b \<noteq> [] \<and> processEventHandlers P b [file] (store w) = (Inr pre, s0)"
  then have h: "b \<noteq> []" "processEventHandlers P b [file] (store w) = (Inr pre, s0)"
    by (rule conjunct1, rule conjunct2)
  show "renderFileWithPlugins P file d (Some b) ea w =
      renderFileWithPlugins P file d None ea \<lparr>store = s0, trace = trace w @ [Dispatch b [file]]\<rparr>"
    by (rule render_with_pre[OF h])
next
  assume "file_render P a d (store w) = (Inr rf, s1) \<and> \<not> given ea"
  then have h: "file_render P a d (store w) = (Inr rf, s1)" "\<not> given ea"
    by (rule conjunct1, rule conjunct2)
  show "renderFileWithPlugins P (RRef a) d None ea w =
      (Inr (RRef a, rf), \<lparr>store = s1, trace = trace w @ [Render a d]\<rparr>)"
    by (rule render_without_post[OF h])
next
  assume "file_render P a d (store w) = (Inr rf, s1) \<and> n \<noteq> [] \<and>
    processEventHandlers P n [RRef a, rf] s1 = (Inr res, s2)"
  then have h: "file_render P a d (store w) = (Inr rf, s1)" "n \<noteq> []"
    "processEventHandlers P n [RRef a, rf] s1 = (Inr res, s2)"
    by (rule conjunct1, rule conjunct1[OF conjunct2], rule conjunct2[OF conjunct2])
  show "renderFileWithPlugins P (RRef a) d None (Some n) w =
      (Inr (element res 0, element res 1),
       \<lparr>store = s2, trace = trace w @ [Render a d, Dispatch n [RRef a, rf]]\<rparr>)"
    by (rule render_with_post[OF h])
qed

theorem render_phases_witness:
  "renderFileWithPlugins demo_plugins (RRef 1) RUndefined None (Some ''afterRender'') demo_world =
     (Inr (RRef 2, RStr ''<p>swapped</p>''),
      \<lparr>store = [(1, ''draft'')],
       trace = [Render 1 RUndefined, Dispatch ''afterRender'' [RRef 1, RStr ''<p>draft</p>'']]\<rparr>) \<and>
   renderFileWithPlugins demo_plugins (RRef 1) RUndefined (Some ''beforeRender'') None demo_world =
     (Inr (RRef 1, RStr ''<p>edited</p>''),
      \<lparr>store = [(1, ''edited'')],
       trace = [Dispatch ''beforeRender'' [RRef 1], Render 1 RUndefined]\<rparr>) \<and>
   renderFileWithPlugins demo_plugins (RRef 1) RUndefined (Some []) (Some []) demo_world =
     (Inr (RRef 1, RStr ''<p>draft</p>''),
      \<lparr>store = [(1, ''draft'')], trace = [Render 1 RUndefined]\<rparr>)"
proof -
  let ?w1 = "\<lparr>store = [(1::nat, ''edited'')], trace = [Dispatch ''beforeRender'' [RRef 1]]\<rparr>"
  have r0: "file_render demo_plugins 1 RUndefined (store demo_world)
              = (Inr (RStr ''<p>draft</p>''), [(1, ''draft'')])"
    by (simp add: demo_plugins_def demo_world_def)
  have p0: "processEventHandlers demo_plugins ''afterRender'' [RRef 1, RStr ''<p>draft</p>''] [(1, ''draft'')]
              = (Inr [RRef 2, RStr ''<p>swapped</p>''], [(1, ''draft'')])"
    by (simp add: demo_plugins_def)
  have ne: "''afterRender'' \<noteq> []" "''beforeRender'' \<noteq> []" by simp_all
  have A: "renderFileWithPlugins demo_plugins (RRef 1) RUndefined None (Some ''afterRender'') demo_world =
     (Inr (RRef 2, RStr ''<p>swapped</p>''),
      \<lparr>store = [(1, ''draft'')],
       trace = [Render 1 RUndefined, Dispatch ''afterRender'' [RRef 1, RStr ''<p>draft</p>'']]\<rparr>)"
    using render_phases[of "None" demo_plugins "RRef 1" RUndefined None demo_world "[]" "[]" "[]"
        1 "RStr ''<p>draft</p>''" "[(1, ''draft'')]" "''afterRender''"
        "[RRef 2, RStr ''<p>swapped</p>'']" "[(1, ''draft'')]"] r0 p0 ne
    by (simp add: element_def demo_world_def)
  have b0: "processEventHandlers demo_plugins ''beforeRender'' [RRef 1] (store demo_world)
              = (Inr [RRef 99], [(1, ''edited'')])"
    by (simp add: demo_plugins_def demo_world_def)
  have r1: "file_render demo_plugins 1 RUndefined (store ?w1)
              = (Inr (RStr ''<p>edited</p>''), [(1, ''edited'')])"
    by (simp add: demo_plugins_def)
  have B1: "renderFileWithPlugins demo_plugins (RRef 1) RUndefined (Some ''beforeRender'') None demo_world =
            renderFileWithPlugins demo_plugins (RRef 1) RUndefined None None ?w1"
    using render_phases[of "None" demo_plugins "RRef 1" RUndefined None demo_world "''beforeRender''"
        "[RRef 99]" "[(1, ''edited'')]" 1 "RStr ''x''" "[]" "[]" "[]" "[]"] b0 ne
    by (simp add: demo_world_def)
  have B2: "renderFileWithPlugins demo_plugins (RRef 1) RUndefined None None ?w1 =
     (Inr (RRef 1, RStr ''<p>edited</p>''),
      \<lparr>store = [(1, ''edited'')],
       trace = [Dispatch ''beforeRender'' [RRef 1], Render 1 RUndefined]\<rparr>)"
    using render_phases[of "None" demo_plugins "RRef 1" RUndefined None ?w1 "[]" "[]" "[]"
        1 "RStr ''<p>edited</p>''" "[(1, ''edited'')]" "[]" "[]" "[]"] r1
    by simp
  have C1: "renderFileWithPlugins demo_plugins (RRef 1) RUndefined (Some []) (Some []) demo_world =
            renderFileWithPlugins demo_plugins (RRef 1) RUndefined None (Some []) demo_world"
    using render_phases[of "Some []" demo_plugins "RRef 1" RUndefined "Some []" demo_world "[]" "[]" "[]"
        1 "RStr ''x''" "[]" "[]" "[]" "[]"]
    by simp
  have C2: "renderFileWithPlugins demo_plugins (RRef 1) RUndefined None (Some []) demo_world =
     (Inr (RRef 1, RStr ''<p>draft</p>''),
      \<lparr>store = [(1, ''draft'')], trace = [Render 1 RUndefined]\<rparr>)"
    using render_phases[of "None" demo_plugins "RRef 1" RUndefined "Some []" demo_world "[]" "[]" "[]"
        1 "RStr ''<p>draft</p>''" "[(1, ''draft'')]" "[]" "[]" "[]"] r0
    by (simp add: demo_world_def)
  from A B1 B2 C1 C2 show ?thesis by simp
qed

section \<open>Properties of a second \<open>update\<close>\<close>



lemma normalize_segments_id: "clean_segments segs \<Longrightarrow> normalize_segments a res segs = res @ segs"
proof (induction segs arbitrary: res)
  case Nil then show ?case by simp
next
  case (Cons seg segs)
  then have "clean_segments segs" and "seg \<noteq> []" "seg \<noteq> ''.''" "seg \<noteq> ''..''" by (auto simp: clean_segments_def)
  with Cons.IH[of "res @ [seg]"] show ?case by simp
qed





























end
